theory Spec2Isabelle
  imports Complex_Main "HOL-Library.AList"
begin

section \<open>Data model\<close>

text \<open>
  The scripts work on pandas data frames read from CSV files.  A numeric cell is a real
  number or the missing marker NaN; NaN is \<open>None\<close>.  A double is the real number it denotes.
  In the filter and in the normalizer, whose claims depend on exact zeros, every operation
  is rounded as numpy rounds it (\<open>float64\<close> below); the sample-rate estimate and the band
  powers are written in the arithmetic of the real numbers.
  Every \<open>raise\<close> of the Python code, and every exception of a library call that the
  claims depend on, is a value of type \<open>error\<close>.
\<close>

datatype error =
    ValueError string
  | KeyError string
  | TypeError string
  | IndexError string
  | ZeroDivisionError

type_synonym cell = "real option"

datatype column = Numeric "cell list" | Text "string list"

text \<open>A data frame: its columns in order, each under its name.\<close>

type_synonym frame = "(string \<times> column) list"


text \<open>\<open>x[~np.isnan(x)]\<close>: the values that are present, in order.\<close>

definition valid_values :: "cell list \<Rightarrow> real list" where
  "valid_values col = map the (filter (\<lambda>v. v \<noteq> None) col)"


subsection \<open>Double precision\<close>

text \<open>
  The samples are IEEE double-precision numbers, and numpy rounds the result of each
  arithmetic operation to the nearest double, a tie going to the even significand.  A
  finite double is modelled as the real number it denotes; \<open>float64\<close> rounds a real to 53
  significant bits.  The exponent is not bounded: overflow, subnormal numbers, infinities
  and the sign of zero are outside the model.
\<close>

definition round_even :: "real \<Rightarrow> int" where
  "round_even x =
     (let f = \<lfloor>x\<rfloor>; r = x - of_int f
      in if r < 1 / 2 then f else if 1 / 2 < r then f + 1 else if even f then f else f + 1)"

definition float64 :: "real \<Rightarrow> real" where
  "float64 x =
     (if x = 0 then 0
      else (let e = \<lfloor>log 2 \<bar>x\<bar>\<rfloor> - 52
            in of_int (round_even (x / 2 powi e)) * 2 powi e))"


section \<open>processing/convert.py\<close>

subsection \<open>estimate_sample_rate_duration\<close>

definition estimate_sample_rate_duration :: "frame \<Rightarrow> string \<Rightarrow> bool \<Rightarrow> error + real" where
  "estimate_sample_rate_duration df timestamp_col is_milli =
    (case map_of df timestamp_col of
       None \<Rightarrow> Inl (KeyError timestamp_col)
     | Some (Text _) \<Rightarrow> Inl (TypeError ''isnan'')
     | Some (Numeric col) \<Rightarrow>
        (let ts = valid_values col in
         if length ts < 2
         then Inl (ValueError ''Not enough timestamps to estimate sample rate.'')
         else
          (let duration_sec = last ts - hd ts;
               duration_sec = (if is_milli then duration_sec / 1000 else duration_sec);
               n_samples = length ts
           in if duration_sec \<le> 0
              then Inl (ValueError ''Non-positive duration detected.'')
              else Inr ((real n_samples - 1) / duration_sec))))"

subsection \<open>Deduplication in mm_to_bluemuse\<close>

text \<open>
  A selected table such as \<open>signals[_EEG_COLUMNS_TS]\<close>, row by row: the grouping key (the
  \<open>TimeStamp\<close> column) and the cells of the other columns.  \<open>groupby('TimeStamp',
  as_index=False)\<close> makes one group per distinct key and orders the groups by key.
  \<open>GroupBy.last()\<close> and \<open>GroupBy.first()\<close> work column by column: they take the last
  (first) entry of the column within the group that is not missing, and NaN when the
  group has none.
\<close>

type_synonym 'k row = "'k \<times> cell list"

definition last_valid :: "cell list \<Rightarrow> cell" where
  "last_valid vs = (case filter (\<lambda>v. v \<noteq> None) vs of [] \<Rightarrow> None | w # ws \<Rightarrow> last (w # ws))"

definition first_valid :: "cell list \<Rightarrow> cell" where
  "first_valid vs = (case filter (\<lambda>v. v \<noteq> None) vs of [] \<Rightarrow> None | w # ws \<Rightarrow> w)"

definition group_keys :: "('k::linorder) row list \<Rightarrow> 'k list" where
  "group_keys rows = sort (remdups (map fst rows))"

definition group_rows :: "'k \<Rightarrow> 'k row list \<Rightarrow> cell list list" where
  "group_rows k rows = map snd (filter (\<lambda>r. fst r = k) rows)"

definition agg_columns :: "(cell list \<Rightarrow> cell) \<Rightarrow> cell list list \<Rightarrow> cell list" where
  "agg_columns f grp = map (\<lambda>j. f (map (\<lambda>r. r ! j) grp)) [0 ..< length (hd grp)]"

definition groupby_agg :: "(cell list \<Rightarrow> cell) \<Rightarrow> ('k::linorder) row list \<Rightarrow> 'k row list" where
  "groupby_agg f rows = map (\<lambda>k. (k, agg_columns f (group_rows k rows))) (group_keys rows)"

text \<open>\<open>groups.last() if groupby_choice == 'last' else groups.first()\<close>\<close>

definition dedup :: "string \<Rightarrow> ('k::linorder) row list \<Rightarrow> 'k row list" where
  "dedup groupby_choice raw =
    (if groupby_choice = ''last'' then groupby_agg last_valid raw
     else groupby_agg first_valid raw)"

text \<open>The three streams of \<open>mm_to_bluemuse\<close> (lines 144 to 152): EEG, accelerometer, gyroscope.\<close>

definition mm_dedup ::
  "string \<Rightarrow> ('k::linorder) row list \<Rightarrow> 'k row list \<Rightarrow> 'k row list
    \<Rightarrow> 'k row list \<times> 'k row list \<times> 'k row list" where
  "mm_dedup groupby_choice eeg_raw accel_raw gyro_raw =
    (let eeg = dedup groupby_choice eeg_raw;
         accel = dedup groupby_choice accel_raw;
         gyro = dedup groupby_choice gyro_raw
     in (eeg, accel, gyro))"


section \<open>processing/filter.py\<close>

subsection \<open>Configuration\<close>

definition FS :: real where "FS = 256"
definition NOTCH_FREQ :: real where "NOTCH_FREQ = 60"
definition NOTCH_Q :: real where "NOTCH_Q = 25"
definition BANDPASS_LOW :: real where "BANDPASS_LOW = 1"
definition BANDPASS_HIGH :: real where "BANDPASS_HIGH = 40"
definition BANDPASS_ORDER :: nat where "BANDPASS_ORDER = 4"

definition EEG_CHANNELS :: "string list" where
  "EEG_CHANNELS = [''TP9'', ''AF7'', ''AF8'', ''TP10'', ''Right AUX'']"

subsection \<open>interpolate_nans\<close>

text \<open>
  \<open>np.interp(x, xp, fp)\<close> for increasing sample points \<open>xp\<close>: the value is \<open>fp[-1]\<close> to the
  right of the last point and \<open>fp[0]\<close> to the left of the first; in between, with
  \<open>xp[j] \<le> x < xp[j+1]\<close>, it is \<open>fp[j]\<close> when \<open>x = xp[j]\<close> and
  \<open>slope * (x - xp[j]) + fp[j]\<close> otherwise, with
  \<open>slope = (fp[j+1] - fp[j]) / (xp[j+1] - xp[j])\<close> and every operation rounded.
  \<open>interp_search\<close> finds \<open>j\<close>.
\<close>

fun interp_search :: "real \<Rightarrow> real list \<Rightarrow> real list \<Rightarrow> real" where
  "interp_search x (x0 # x1 # xp) (y0 # y1 # fp) =
     (if x < x1
      then (if x = x0 then y0
            else float64 (float64 (float64 (float64 (y1 - y0) / float64 (x1 - x0))
                                    * float64 (x - x0)) + y0))
      else interp_search x (x1 # xp) (y1 # fp))"
| "interp_search x xp (y0 # fp) = y0"
| "interp_search x xp [] = 0"

definition np_interp :: "real \<Rightarrow> real list \<Rightarrow> real list \<Rightarrow> real" where
  "np_interp x xp fp =
     (if x > last xp then last fp
      else if x < hd xp then hd fp
      else interp_search x xp fp)"

definition interpolate_nans :: "cell list \<Rightarrow> error + cell list" where
  "interpolate_nans x =
     (let nans = map (\<lambda>v. v = None) x in
      if \<not> (\<exists>b \<in> set nans. b) then Inr x
      else
       (let idx = [0 ..< length x];
            xp = map (\<lambda>iv. real (fst iv)) (filter (\<lambda>iv. snd iv \<noteq> None) (zip idx x));
            fp = valid_values x
        in if xp = [] then Inl (ValueError ''array of sample points is empty'')
           else Inr (map (\<lambda>iv. if snd iv = None then Some (np_interp (real (fst iv)) xp fp)
                                else snd iv) (zip idx x))))"

subsection \<open>Zero-phase filtering\<close>

text \<open>
  \<open>scipy.signal.lfilter(b, a, x, zi=z)\<close>: the transposed direct form II of the difference
  equation, the coefficients padded to a common length and divided by \<open>a[0]\<close>, started
  in state \<open>z\<close>.  Each sample gives the output \<open>y = z[0] + b[0] * x\<close> and the new state
  \<open>z[k] = z[k+1] + x * b[k+1] - y * a[k+1]\<close>, every operation rounded.  A leading
  denominator coefficient of zero is refused with \<open>ValueError\<close>.
\<close>

fun lfilter_run :: "real list \<Rightarrow> real list \<Rightarrow> real list \<Rightarrow> real list \<Rightarrow> real list" where
  "lfilter_run b a z [] = []"
| "lfilter_run b a z (x # xs) =
     (let y = float64 (hd (z @ [0]) + float64 (hd b * x));
          z' = map (\<lambda>(bi, ai, zn). float64 (float64 (zn + float64 (x * bi)) - float64 (y * ai)))
                 (zip (tl b) (zip (tl a) (tl z @ [0])))
      in y # lfilter_run b a z' xs)"

definition lfilter ::
  "real list \<Rightarrow> real list \<Rightarrow> real list \<Rightarrow> real list \<Rightarrow> error + real list" where
  "lfilter b a x zi =
     (if a = [] \<or> hd a = 0
      then Inl (ValueError ''filter coefficient a[0] == 0 not supported yet'')
      else
       (let n = max (length a) (length b);
            bn = map (\<lambda>c. float64 (c / hd a)) (b @ replicate (n - length b) 0);
            an = map (\<lambda>c. float64 (c / hd a)) (a @ replicate (n - length a) 0)
        in Inr (lfilter_run bn an zi x)))"

text \<open>\<open>odd_ext(x, n)\<close>: \<open>n\<close> samples mirrored through the end points, on each side.\<close>

definition odd_ext :: "real list \<Rightarrow> nat \<Rightarrow> real list" where
  "odd_ext x n =
     map (\<lambda>v. float64 (float64 (2 * hd x) - v)) (rev (take n (tl x))) @ x @
     map (\<lambda>v. float64 (float64 (2 * last x) - v)) (rev (drop (length x - 1 - n) (butlast x)))"

text \<open>
  \<open>scipy.signal.filtfilt(b, a, x)\<close> with its defaults (\<open>method='pad'\<close>, \<open>padtype='odd'\<close>,
  \<open>padlen = 3 * max(len(a), len(b))\<close>): it refuses an input that is not longer than
  the padding, extends the input, filters forward, filters the reversed result, reverses
  and cuts the padding off.  \<open>lfilter_zi\<close>, the steady state of the step response, is a
  parameter; its refusal of a denominator without a nonzero coefficient is written out.
\<close>

definition filtfilt ::
  "(real list \<Rightarrow> real list \<Rightarrow> real list) \<Rightarrow> real list \<Rightarrow> real list \<Rightarrow> real list
    \<Rightarrow> error + real list" where
  "filtfilt lfilter_zi b a x =
     (let ntaps = max (length a) (length b);
          edge = ntaps * 3
      in if length x \<le> edge
         then Inl (ValueError ''The length of the input vector x must be greater than padlen'')
         else if list_all (\<lambda>c. c = 0) a
         then Inl (ValueError ''There must be at least one nonzero a coefficient'')
         else
          (let ext = (if edge > 0 then odd_ext x edge else x);
               zi = lfilter_zi b a;
               x0 = hd ext
           in case lfilter b a ext (map (\<lambda>z. float64 (z * x0)) zi) of
                Inl e \<Rightarrow> Inl e
              | Inr y \<Rightarrow>
                 (let y0 = last y
                  in case lfilter b a (rev y) (map (\<lambda>z. float64 (z * y0)) zi) of
                       Inl e \<Rightarrow> Inl e
                     | Inr y \<Rightarrow>
                        (let y = rev y
                         in Inr (if edge > 0 then take (length y - 2 * edge) (drop edge y)
                                 else y)))))"

subsection \<open>filter_eeg\<close>

text \<open>
  The designers \<open>iirnotch(w0, Q, fs)\<close> and \<open>butter(N, [low, high], fs=fs, btype='band')\<close>
  of scipy are parameters; each returns the numerator and the denominator coefficients.
\<close>

type_synonym iirnotch_fn = "real \<Rightarrow> real \<Rightarrow> real \<Rightarrow> real list \<times> real list"
type_synonym butter_fn = "nat \<Rightarrow> real \<times> real \<Rightarrow> real \<Rightarrow> real list \<times> real list"

text \<open>Lines 59 to 72: the two designs, notch first.\<close>

definition filter_design ::
  "iirnotch_fn \<Rightarrow> butter_fn \<Rightarrow> (real list \<times> real list) \<times> (real list \<times> real list)" where
  "filter_design iirnotch butter =
     (iirnotch NOTCH_FREQ NOTCH_Q FS,
      butter BANDPASS_ORDER (BANDPASS_LOW, BANDPASS_HIGH) FS)"

text \<open>
  \<open>x - np.mean(x)\<close>.  \<open>np.mean\<close> is a parameter: it is a double, the rounded sum over the
  rounded count, and the order in which numpy adds the samples is its own.  The
  subtraction is rounded.
\<close>

definition demean :: "(real list \<Rightarrow> real) \<Rightarrow> real list \<Rightarrow> real list" where
  "demean np_mean x = map (\<lambda>v. float64 (v - np_mean x)) x"

text \<open>Lines 80 to 93: one channel through de-meaning, the notch and the optional band-pass.\<close>

definition filter_channel ::
  "(real list \<Rightarrow> real) \<Rightarrow> (real list \<Rightarrow> real list \<Rightarrow> real list) \<Rightarrow> (real list \<times> real list)
    \<Rightarrow> (real list \<times> real list) \<Rightarrow> bool \<Rightarrow> real list \<Rightarrow> error + real list" where
  "filter_channel np_mean lfilter_zi notch bp apply_bandpass x =
     (let x = demean np_mean x in
      case filtfilt lfilter_zi (fst notch) (snd notch) x of
        Inl e \<Rightarrow> Inl e
      | Inr x \<Rightarrow>
         (if apply_bandpass then filtfilt lfilter_zi (fst bp) (snd bp) x else Inr x))"

text \<open>The first error of a sequence of results, or all the values.\<close>

fun collect :: "(error + 'a) list \<Rightarrow> error + 'a list" where
  "collect [] = Inr []"
| "collect (Inl e # rs) = Inl e"
| "collect (Inr v # rs) = (case collect rs of Inl e \<Rightarrow> Inl e | Inr vs \<Rightarrow> Inr (v # vs))"

text \<open>
  One column of \<open>df[EEG_CHANNELS].values\<close>.  With a text column among the five the array is
  of objects, and \<open>np.isnan\<close> raises \<open>TypeError\<close> on its first column.  The numeric columns
  are columns of doubles, as is the array \<open>np.zeros_like(eeg_data)\<close> that takes the result;
  a file whose five channels are all written as integers is not in the model.
\<close>

definition eeg_column :: "frame \<Rightarrow> string \<Rightarrow> error + cell list" where
  "eeg_column df ch =
     (case map_of df ch of
        None \<Rightarrow> Inl (KeyError ch)
      | Some (Text _) \<Rightarrow> Inl (TypeError ''isnan'')
      | Some (Numeric col) \<Rightarrow> Inr col)"

text \<open>
  Lines 47 to 102.  The check of the channels comes first and names the first channel of
  \<open>EEG_CHANNELS\<close> that the file does not have.
\<close>

definition filter_eeg ::
  "(real list \<Rightarrow> real) \<Rightarrow> iirnotch_fn \<Rightarrow> butter_fn \<Rightarrow> (real list \<Rightarrow> real list \<Rightarrow> real list)
    \<Rightarrow> frame \<Rightarrow> bool \<Rightarrow> error + frame" where
  "filter_eeg np_mean iirnotch butter lfilter_zi df apply_bandpass =
     (case filter (\<lambda>ch. ch \<notin> set (map fst df)) EEG_CHANNELS of
        ch # _ \<Rightarrow> Inl (ValueError (''Missing EEG channel: '' @ ch))
      | [] \<Rightarrow>
         (case collect (map (eeg_column df) EEG_CHANNELS) of
            Inl e \<Rightarrow> Inl e
          | Inr eeg_data \<Rightarrow>
             (case collect (map interpolate_nans eeg_data) of
                Inl e \<Rightarrow> Inl e
              | Inr eeg_data \<Rightarrow>
                 (let (notch, bp) = filter_design iirnotch butter in
                  case collect (map (\<lambda>col. filter_channel np_mean lfilter_zi notch bp
                                             apply_bandpass (map the col)) eeg_data) of
                    Inl e \<Rightarrow> Inl e
                  | Inr filtered \<Rightarrow>
                     Inr (fold (\<lambda>(ch, col) d. AList.update ch (Numeric (map Some col)) d)
                            (zip EEG_CHANNELS filtered) df)))))"


section \<open>analysis/psd.py\<close>

definition CHANNELS :: "string list" where
  "CHANNELS = [''AF7'', ''AF8'', ''TP9'', ''TP10'']"

definition BANDS :: "(string \<times> real \<times> real) list" where
  "BANDS = [(''delta'', 1, 4), (''theta'', 4, 8), (''alpha'', 9, 13), (''beta'', 13, 30),
            (''gamma'', 30, 200)]"

definition SAMPLE_RATE :: nat where "SAMPLE_RATE = 256"
definition WINDOW_SIZE :: nat where "WINDOW_SIZE = 256"
definition SLIDE_RATE :: nat where "SLIDE_RATE = 22"

text \<open>A two-dimensional array, one row per frequency bin and one entry per time frame.\<close>

type_synonym matrix = "real list list"

subsection \<open>compute_muse_psd\<close>

text \<open>
  The keyword arguments of \<open>scipy.signal.spectrogram\<close>.  The estimator and \<open>get_window\<close>
  are parameters; the estimator returns the frequency axis, the time axis and the power
  grid, or raises.
\<close>

record spectrogram_args =
  fs :: real
  window :: "real list"
  nperseg :: nat
  noverlap :: int
  scaling :: string
  mode :: string

type_synonym spectrogram_fn =
  "column \<Rightarrow> spectrogram_args \<Rightarrow> error + (real list \<times> real list \<times> matrix)"

definition psd_args :: "real list \<Rightarrow> spectrogram_args" where
  "psd_args win =
     \<lparr>fs = real SAMPLE_RATE, window = win, nperseg = WINDOW_SIZE,
      noverlap = int WINDOW_SIZE - int SLIDE_RATE, scaling = ''density'', mode = ''psd''\<rparr>"

text \<open>The loop over \<open>CHANNELS\<close>, its state the dictionary \<open>psd\<close> and the two axes.\<close>

fun psd_channels ::
  "spectrogram_fn \<Rightarrow> frame \<Rightarrow> real list \<Rightarrow> string list
    \<Rightarrow> (string \<times> matrix) list \<times> real list option \<times> real list option
    \<Rightarrow> error + ((string \<times> matrix) list \<times> real list option \<times> real list option)" where
  "psd_channels spectrogram df win [] st = Inr st"
| "psd_channels spectrogram df win (ch # chs) (psd, freqs, times') =
     (case map_of df ch of
        None \<Rightarrow> Inl (KeyError ch)
      | Some x \<Rightarrow>
         (case spectrogram x (psd_args win) of
            Inl e \<Rightarrow> Inl e
          | Inr (f, t, Sxx) \<Rightarrow>
             (let Sxx_dB = map (map (\<lambda>s. 10 * log 10 (s + 1 / 10 ^ 12))) Sxx;
                  psd = AList.update ch Sxx_dB psd
              in if freqs = None
                 then psd_channels spectrogram df win chs (psd, Some f, Some t)
                 else psd_channels spectrogram df win chs (psd, freqs, times'))))"

definition compute_muse_psd ::
  "(string \<Rightarrow> nat \<Rightarrow> real list) \<Rightarrow> spectrogram_fn \<Rightarrow> frame
    \<Rightarrow> error + (real list option \<times> real list option \<times> (string \<times> matrix) list)" where
  "compute_muse_psd get_window spectrogram df =
     (let win = get_window ''hamming'' WINDOW_SIZE in
      case psd_channels spectrogram df win CHANNELS ([], None, None) of
        Inl e \<Rightarrow> Inl e
      | Inr (psd, freqs, times') \<Rightarrow> Inr (freqs, times', psd))"

subsection \<open>compute_bandpowers_time_series\<close>

text \<open>\<open>np.where((freqs >= fmin) & (freqs <= fmax))[0]\<close>\<close>

definition band_idx :: "real list \<Rightarrow> real \<Rightarrow> real \<Rightarrow> nat list" where
  "band_idx freqs fmin fmax =
     filter (\<lambda>i. freqs ! i \<ge> fmin \<and> freqs ! i \<le> fmax) [0 ..< length freqs]"

text \<open>\<open>np.sum(M[idx, :], axis=0)\<close>: an index beyond the rows of \<open>M\<close> raises.\<close>

definition sum_rows :: "matrix \<Rightarrow> nat list \<Rightarrow> error + real list" where
  "sum_rows M idx =
     (if \<exists>i \<in> set idx. i \<ge> length M then Inl (IndexError ''index is out of bounds'')
      else Inr (map (\<lambda>j. sum_list (map (\<lambda>i. M ! i ! j) idx)) [0 ..< length (hd M)]))"

type_synonym band_record = "real \<times> string \<times> string \<times> real"

definition band_records ::
  "real list \<Rightarrow> real list \<Rightarrow> string \<Rightarrow> matrix \<Rightarrow> string \<times> real \<times> real
    \<Rightarrow> error + band_record list" where
  "band_records freqs times' ch Sxx_linear bnd =
     (case bnd of (band, fmin, fmax) \<Rightarrow>
       (let idx = band_idx freqs fmin fmax in
        if length idx = 0 then Inr []
        else
         (case sum_rows Sxx_linear idx of
            Inl e \<Rightarrow> Inl e
          | Inr band_power \<Rightarrow>
             (let band_power_log = map (\<lambda>p. log 10 (p + 1 / 10 ^ 12)) band_power
              in Inr (map (\<lambda>(t, val). (t, ch, band, val)) (zip times' band_power_log))))))"

definition channel_records ::
  "real list \<Rightarrow> real list \<Rightarrow> string \<times> matrix \<Rightarrow> error + band_record list" where
  "channel_records freqs times' entry =
     (case entry of (ch, Sxx_dB) \<Rightarrow>
       (let Sxx_linear = map (map (\<lambda>d. 10 powr (d / 10))) Sxx_dB in
        case collect (map (band_records freqs times' ch Sxx_linear) BANDS) of
          Inl e \<Rightarrow> Inl e
        | Inr rs \<Rightarrow> Inr (concat rs)))"

definition compute_bandpowers_time_series ::
  "real list \<Rightarrow> real list \<Rightarrow> (string \<times> matrix) list \<Rightarrow> error + band_record list" where
  "compute_bandpowers_time_series freqs times' psd =
     (case collect (map (channel_records freqs times') psd) of
        Inl e \<Rightarrow> Inl e
      | Inr rs \<Rightarrow> Inr (concat rs))"


section \<open>processing/normalize.py\<close>

definition TIMESTAMP_COLUMNS :: "string list" where
  "TIMESTAMP_COLUMNS = [''TimeStamp'', ''unix_ms'', ''unix_ts'', ''lsl_unix_ts'']"

text \<open>
  Element-wise arithmetic of pandas: NaN propagates and each result is rounded.  A quotient
  by an exact zero is the hazard that the line \<open>baseline_std[baseline_std == 0] = np.nan\<close>
  is there to exclude.  pandas would answer it with an infinite value or NaN, which the
  cells of the model do not have; the model marks it as \<open>ZeroDivisionError\<close>, so that a
  result of \<open>normalize\<close> is a frame computed without a division by zero.
\<close>

fun cell_sub :: "cell \<Rightarrow> cell \<Rightarrow> cell" where
  "cell_sub (Some a) (Some b) = Some (float64 (a - b))"
| "cell_sub _ _ = None"

fun cell_div :: "cell \<Rightarrow> cell \<Rightarrow> error + cell" where
  "cell_div (Some a) (Some b) =
     (if b = 0 then Inl ZeroDivisionError else Inr (Some (float64 (a / b))))"
| "cell_div _ _ = Inr None"

text \<open>
  The rows of the reference kept by the culling, as a flag for each row.  \<open>min()\<close> and
  \<open>max()\<close> skip missing values; on a column without a value both are NaN and no row is
  kept.
\<close>

definition cull_mask :: "cell list \<Rightarrow> real \<Rightarrow> real \<Rightarrow> bool list" where
  "cull_mask ts start_buffer end_buffer =
     (let tv = valid_values ts in
      if tv = [] then map (\<lambda>t. False) ts
      else
       (let t_start = float64 (Min (set tv) + start_buffer);
            t_end = float64 (Max (set tv) - end_buffer)
        in map (\<lambda>t. case t of None \<Rightarrow> False | Some v \<Rightarrow> v \<ge> t_start \<and> v \<le> t_end) ts))"

definition select_rows :: "bool list \<Rightarrow> 'a list \<Rightarrow> 'a list" where
  "select_rows keep col = map snd (filter fst (zip keep col))"

text \<open>
  \<open>baseline_mean\<close> and \<open>baseline_std\<close> of one channel, the zero deviation replaced by NaN.
  \<open>Series.mean()\<close> and \<open>Series.std(ddof=0)\<close> of pandas are parameters: each is a double or
  NaN, computed by pandas from the values that are present.
\<close>

definition baseline ::
  "(cell list \<Rightarrow> cell) \<Rightarrow> (cell list \<Rightarrow> cell) \<Rightarrow> frame \<Rightarrow> bool list \<Rightarrow> string
    \<Rightarrow> error + (cell \<times> cell)" where
  "baseline series_mean series_std rest_df keep c =
     (case map_of rest_df c of
        None \<Rightarrow> Inl (KeyError c)
      | Some (Text _) \<Rightarrow> Inl (TypeError c)
      | Some (Numeric col) \<Rightarrow>
         (let rest_mid = select_rows keep col;
              baseline_mean = series_mean rest_mid;
              baseline_std = series_std rest_mid;
              baseline_std = (if baseline_std = Some 0 then None else baseline_std)
          in Inr (baseline_mean, baseline_std)))"

definition normalize_column ::
  "(cell list \<Rightarrow> cell) \<Rightarrow> (cell list \<Rightarrow> cell) \<Rightarrow> frame \<Rightarrow> bool list \<Rightarrow> string list
    \<Rightarrow> string \<times> column \<Rightarrow> error + (string \<times> column)" where
  "normalize_column series_mean series_std rest_df keep channel_cols entry =
     (case entry of (c, col) \<Rightarrow>
       (if c \<notin> set channel_cols then Inr (c, col)
        else
         (case baseline series_mean series_std rest_df keep c of
            Inl e \<Rightarrow> Inl e
          | Inr (baseline_mean, baseline_std) \<Rightarrow>
             (case col of
                Text _ \<Rightarrow> Inl (TypeError c)
              | Numeric xs \<Rightarrow>
                 (case collect (map (\<lambda>x. cell_div (cell_sub x baseline_mean) baseline_std) xs) of
                    Inl e \<Rightarrow> Inl e
                  | Inr zs \<Rightarrow> Inr (c, Numeric zs))))))"

text \<open>Lines 28 to 66 of processing/normalize.py; src/normalize.py has the same lines.\<close>

definition normalize ::
  "(cell list \<Rightarrow> cell) \<Rightarrow> (cell list \<Rightarrow> cell) \<Rightarrow> frame \<Rightarrow> frame \<Rightarrow> string \<Rightarrow> real \<Rightarrow> real
    \<Rightarrow> error + frame" where
  "normalize series_mean series_std rest_df exp_df ts_col start_buffer end_buffer =
     (let channel_cols = filter (\<lambda>c. c \<notin> set TIMESTAMP_COLUMNS) (map fst rest_df);
          missing = filter (\<lambda>c. c \<notin> set (map fst exp_df)) channel_cols
      in if missing \<noteq> [] then Inl (ValueError ''Experimental CSV missing channels'')
         else
          (case map_of rest_df ts_col of
             None \<Rightarrow> Inl (KeyError ts_col)
           | Some (Text _) \<Rightarrow> Inl (TypeError ts_col)
           | Some (Numeric ts) \<Rightarrow>
              (let keep = cull_mask ts start_buffer end_buffer in
               if length (filter id keep) = 0
               then Inl (ValueError ''Rest EEG empty after culling'')
               else collect (map (normalize_column series_mean series_std rest_df keep
                                    channel_cols) exp_df))))"


section \<open>Stand-ins for the library functions\<close>

text \<open>
  Concrete functions for the places of the library functions in the examples below.  Those
  named \<open>echo\<close>, for \<open>get_window\<close>, \<open>spectrogram\<close>, \<open>iirnotch\<close> and \<open>butter\<close>, return what
  they were called with, so that an example shows the arguments that reach them.
\<close>

definition echo_window :: "string \<Rightarrow> nat \<Rightarrow> real list" where
  "echo_window name n = [real n]"

definition echo_spectrogram :: spectrogram_fn where
  "echo_spectrogram x args =
     (case x of
        Numeric col \<Rightarrow> Inr (valid_values col, [fs args, real (nperseg args), of_int (noverlap args)], [])
      | Text _ \<Rightarrow> Inl (TypeError ''spectrogram''))"



definition echo_iirnotch :: iirnotch_fn where
  "echo_iirnotch w0 Q rate = ([w0, Q, rate], [1])"

definition echo_butter :: butter_fn where
  "echo_butter N band rate = ([real N, fst band, snd band, rate], [1])"


text \<open>
  In the place of \<open>np.mean\<close>: the samples added in double precision from the first to the
  last, which is the order of numpy below eight samples, and the sum divided by the count.
  On the empty array \<open>np.mean\<close> is NaN, which no sample of the empty result shows.
\<close>

definition mean64 :: "real list \<Rightarrow> real" where
  "mean64 x =
     (if x = [] then 0
      else float64 (foldl (\<lambda>s v. float64 (s + v)) (hd x) (tl x) / real (length x)))"

text \<open>The double nearest to 0.1.\<close>

definition d01 :: real where "d01 = 3602879701896397 / 2 ^ 55"

text \<open>
  In the place of \<open>Series.mean()\<close> and \<open>Series.std(ddof=0)\<close>: the mean and the population
  standard deviation of the values that are present, in exact arithmetic, and NaN when
  there is none.  On the examples below no operation of pandas rounds.
\<close>

definition exact_mean :: "cell list \<Rightarrow> cell" where
  "exact_mean col =
     (let vs = valid_values col in
      if vs = [] then None else Some (sum_list vs / real (length vs)))"

definition exact_std :: "cell list \<Rightarrow> cell" where
  "exact_std col =
     (let vs = valid_values col in
      if vs = [] then None
      else (let m = sum_list vs / real (length vs)
            in Some (sqrt (sum_list (map (\<lambda>v. (v - m)\<^sup>2) vs) / real (length vs)))))"

text \<open>
  A reference of four rows, of which the culling by one second keeps the two in the middle:
  AF7 is constant there, AF8 has mean 2 and deviation 1.  And a target of two rows.
\<close>

definition rest_example :: frame where
  "rest_example = [(''lsl_unix_ts'', Numeric [Some 0, Some 1, Some 2, Some 3]),
                   (''AF7'', Numeric [Some 5, Some 5, Some 5, Some 5]),
                   (''AF8'', Numeric [Some 1, Some 1, Some 3, Some 7])]"

definition exp_example :: frame where
  "exp_example = [(''TimeStamp'', Text [''a'', ''b'']),
                  (''lsl_unix_ts'', Numeric [Some 10, Some 11]),
                  (''AF7'', Numeric [Some 6, None]),
                  (''AF8'', Numeric [Some 4, Some 1])]"

text \<open>A steady state of all zeros, in the place of \<open>lfilter_zi\<close>.\<close>

definition zero_zi :: "real list \<Rightarrow> real list \<Rightarrow> real list" where
  "zero_zi b a = replicate (max (length a) (length b) - 1) 0"


section \<open>The spectral estimation in the words of the specification\<close>





section \<open>The normalized value in the words of the specification\<close>

text \<open>
  \<open>(raw - baseline_mean) / baseline_std\<close>, in double precision: the difference is rounded
  and the quotient is rounded.  The value is missing when the sample, the mean or the
  deviation is.
\<close>

definition zscore_spec :: "cell \<Rightarrow> cell \<Rightarrow> cell \<Rightarrow> cell" where
  "zscore_spec raw baseline_mean baseline_std =
     (case (raw, baseline_mean, baseline_std) of
        (Some v, Some m, Some s) \<Rightarrow> Some (float64 (float64 (v - m) / s))
      | _ \<Rightarrow> None)"


section \<open>The samples that are present, with their indices\<close>

text \<open>
  The sample points that \<open>interpolate_nans\<close> hands to \<open>np.interp\<close>, as pairs of index and
  value: \<open>idx[~nans]\<close> and \<open>x[~nans]\<close>, for a channel whose first sample has index \<open>m\<close>.
\<close>

fun valid_points :: "nat \<Rightarrow> cell list \<Rightarrow> (nat \<times> real) list" where
  "valid_points m [] = []"
| "valid_points m (None # xs) = valid_points (Suc m) xs"
| "valid_points m (Some v # xs) = (m, v) # valid_points (Suc m) xs"

text \<open>The value on the line through \<open>(p, a)\<close> and \<open>(q, b)\<close> at \<open>i\<close>, as \<open>np.interp\<close> rounds it.\<close>

definition lerp64 :: "real \<Rightarrow> real \<Rightarrow> real \<Rightarrow> real \<Rightarrow> real \<Rightarrow> real" where
  "lerp64 p a q b i =
     float64 (float64 (float64 (float64 (b - a) / float64 (q - p)) * float64 (i - p)) + a)"


section \<open>The band-power aggregation in the words of the specification\<close>

text \<open>
  The specification's description of the aggregator, to compare with
  \<open>compute_bandpowers_time_series\<close>: bin \<open>i\<close> is in the band when its centre lies in
  \<open>[fmin, fmax]\<close>, bounds included; the value for time frame \<open>j\<close> is the logarithm to base
  10 of the summed linear power \<open>10^(dB/10)\<close> of the bins in the band, plus the floor; a
  band with no bin gives no record.  \<open>n\<close> is the number of time frames of the grids.
\<close>

definition in_band :: "real list \<Rightarrow> real \<Rightarrow> real \<Rightarrow> nat \<Rightarrow> bool" where
  "in_band freqs fmin fmax i \<longleftrightarrow> i < length freqs \<and> fmin \<le> freqs ! i \<and> freqs ! i \<le> fmax"

definition band_power_spec :: "real list \<Rightarrow> matrix \<Rightarrow> real \<Rightarrow> real \<Rightarrow> nat \<Rightarrow> real" where
  "band_power_spec freqs Sxx_dB fmin fmax j =
     log 10 ((\<Sum>i | in_band freqs fmin fmax i. 10 powr (Sxx_dB ! i ! j / 10)) + 1 / 10 ^ 12)"

definition bandpowers_spec ::
  "real list \<Rightarrow> real list \<Rightarrow> (string \<times> matrix) list \<Rightarrow> nat \<Rightarrow> band_record list" where
  "bandpowers_spec freqs times' psd n =
     concat (map (\<lambda>(ch, Sxx_dB).
       concat (map (\<lambda>(band, fmin, fmax).
         if \<exists>i < length freqs. in_band freqs fmin fmax i
         then map (\<lambda>j. (times' ! j, ch, band, band_power_spec freqs Sxx_dB fmin fmax j))
                [0 ..< min (length times') n]
         else []) BANDS)) psd)"


section \<open>Properties of processing/convert.py\<close>

subsection \<open>Sample-rate estimation\<close>

text \<open>
  C5.  On a numeric timestamp column, with N the number of timestamps that are present and
  the duration the last one minus the first (divided by 1000 when the unit is
  milliseconds): the estimator returns (N - 1) / duration when N is at least 2 and the
  duration is positive; it raises its \<open>ValueError\<close> exactly when N is below 2 or the
  duration is not positive; and the timestamps 0, 10, 20, 30 in milliseconds give 100.
\<close>

theorem estimate_sample_rate_duration_spec:
  assumes "map_of df timestamp_col = Some (Numeric col)"
  shows "(2 \<le> length (valid_values col) \<and>
          0 < (last (valid_values col) - hd (valid_values col)) / (if is_milli then 1000 else 1)
          \<longrightarrow> estimate_sample_rate_duration df timestamp_col is_milli =
               Inr ((real (length (valid_values col)) - 1) /
                    ((last (valid_values col) - hd (valid_values col)) / (if is_milli then 1000 else 1))))
       \<and> ((\<exists>msg. estimate_sample_rate_duration df timestamp_col is_milli = Inl (ValueError msg))
            \<longleftrightarrow> (length (valid_values col) < 2 \<or>
                 (last (valid_values col) - hd (valid_values col)) / (if is_milli then 1000 else 1) \<le> 0))
       \<and> estimate_sample_rate_duration
            [(''unix_ms'', Numeric [Some 0, Some 10, Some 20, Some 30])] ''unix_ms'' True = Inr 100"
  using assms
  by (auto simp: estimate_sample_rate_duration_def Let_def valid_values_def)


theorem estimate_sample_rate_duration_spec_witness:
  "estimate_sample_rate_duration [(''t'', Numeric [Some 1, None, Some 3, Some 5])] ''t'' False = Inr (1/2)"
  using estimate_sample_rate_duration_spec [of "[(''t'', Numeric [Some 1, None, Some 3, Some 5])]" "''t''" "[Some 1, None, Some 3, Some 5]" False]
  by (simp add: valid_values_def)


subsection \<open>Deduplication\<close>

lemma filter_all_None: "(\<forall>v\<in>set vs. v = None) \<Longrightarrow> filter (\<lambda>v. v \<noteq> None) vs = []"
  by (induction vs) simp_all

lemma filter_no_None: "None \<notin> set vs \<Longrightarrow> filter (\<lambda>v. v \<noteq> None) vs = vs"
  by (rule filter_True) (metis)

lemma last_valid_alt:
  "last_valid vs = (if filter (\<lambda>v. v \<noteq> None) vs = [] then None else last (filter (\<lambda>v. v \<noteq> None) vs))"
  unfolding last_valid_def by (cases "filter (\<lambda>v. v \<noteq> None) vs") simp_all

lemma first_valid_alt:
  "first_valid vs = (if filter (\<lambda>v. v \<noteq> None) vs = [] then None else hd (filter (\<lambda>v. v \<noteq> None) vs))"
  unfolding first_valid_def by (cases "filter (\<lambda>v. v \<noteq> None) vs") simp_all

lemma last_valid_at:
  assumes "i < length vs" "vs ! i \<noteq> None" "\<forall>i'. i < i' \<and> i' < length vs \<longrightarrow> vs ! i' = None"
  shows "last_valid vs = vs ! i"
proof -
  have split: "vs = take i vs @ vs ! i # drop (Suc i) vs"
    using assms(1) by (simp add: id_take_nth_drop)
  have "\<forall>v\<in>set (drop (Suc i) vs). v = None"
    using assms(3) by (auto simp: in_set_conv_nth)
  then have tl: "filter (\<lambda>v. v \<noteq> None) (drop (Suc i) vs) = []"
    by (rule filter_all_None)
  have "filter (\<lambda>v. v \<noteq> None) (take i vs @ vs ! i # drop (Suc i) vs)
        = filter (\<lambda>v. v \<noteq> None) (take i vs) @ [vs ! i]"
    unfolding filter_append filter.simps tl using assms(2) by (simp del: not_None_eq)
  then have "filter (\<lambda>v. v \<noteq> None) vs = filter (\<lambda>v. v \<noteq> None) (take i vs) @ [vs ! i]"
    using split by simp
  then show ?thesis
    unfolding last_valid_alt by simp
qed

lemma first_valid_at:
  assumes "i < length vs" "vs ! i \<noteq> None" "\<forall>i'. i' < i \<longrightarrow> vs ! i' = None"
  shows "first_valid vs = vs ! i"
proof -
  have split: "vs = take i vs @ vs ! i # drop (Suc i) vs"
    using assms(1) by (simp add: id_take_nth_drop)
  have "\<forall>v\<in>set (take i vs). v = None"
    using assms(1,3) by (auto simp: in_set_conv_nth)
  then have hd: "filter (\<lambda>v. v \<noteq> None) (take i vs) = []"
    by (rule filter_all_None)
  have "filter (\<lambda>v. v \<noteq> None) (take i vs @ vs ! i # drop (Suc i) vs)
        = vs ! i # filter (\<lambda>v. v \<noteq> None) (drop (Suc i) vs)"
    unfolding filter_append filter.simps hd using assms(2) by (simp del: not_None_eq)
  then have "filter (\<lambda>v. v \<noteq> None) vs = vs ! i # filter (\<lambda>v. v \<noteq> None) (drop (Suc i) vs)"
    using split by simp
  then show ?thesis
    unfolding first_valid_alt by simp
qed

lemma last_valid_none: "(\<forall>v\<in>set vs. v = None) \<Longrightarrow> last_valid vs = None"
  unfolding last_valid_alt by (simp add: filter_all_None del: not_None_eq)

lemma first_valid_none: "(\<forall>v\<in>set vs. v = None) \<Longrightarrow> first_valid vs = None"
  unfolding first_valid_alt by (simp add: filter_all_None del: not_None_eq)

lemma last_valid_full: "None \<notin> set vs \<Longrightarrow> vs \<noteq> [] \<Longrightarrow> last_valid vs = last vs"
  unfolding last_valid_alt by (simp add: filter_no_None del: not_None_eq)

lemma first_valid_full: "None \<notin> set vs \<Longrightarrow> vs \<noteq> [] \<Longrightarrow> first_valid vs = hd vs"
  unfolding first_valid_alt by (simp add: filter_no_None del: not_None_eq)

lemma agg_last_full:
  assumes "grp \<noteq> []" "\<forall>r\<in>set grp. length r = w \<and> None \<notin> set r"
  shows "agg_columns last_valid grp = last grp"
proof -
  have w: "length (hd grp) = w" "length (last grp) = w" using assms by auto
  have "last_valid (map (\<lambda>r. r ! j) grp) = last grp ! j" if "j < w" for j
  proof -
    have "None \<notin> set (map (\<lambda>r. r ! j) grp)"
      using assms(2) that by (auto simp: image_iff) (metis nth_mem)
    then show ?thesis using assms(1) by (simp add: last_valid_full last_map)
  qed
  then have "agg_columns last_valid grp = map (\<lambda>j. last grp ! j) [0..<w]"
    by (simp add: agg_columns_def w)
  also have "\<dots> = last grp" using w(2) by (metis map_nth)
  finally show ?thesis .
qed

lemma agg_first_full:
  assumes "grp \<noteq> []" "\<forall>r\<in>set grp. length r = w \<and> None \<notin> set r"
  shows "agg_columns first_valid grp = hd grp"
proof -
  have w: "length (hd grp) = w" using assms by auto
  have "first_valid (map (\<lambda>r. r ! j) grp) = hd grp ! j" if "j < w" for j
  proof -
    have "None \<notin> set (map (\<lambda>r. r ! j) grp)"
      using assms(2) that by (auto simp: image_iff) (metis nth_mem)
    then show ?thesis using assms(1) by (simp add: first_valid_full hd_map)
  qed
  then have "agg_columns first_valid grp = map (\<lambda>j. hd grp ! j) [0..<w]"
    by (simp add: agg_columns_def w)
  also have "\<dots> = hd grp" using w by (metis map_nth)
  finally show ?thesis .
qed

lemma group_keys_set: "set (group_keys rows) = fst ` set rows"
  by (simp add: group_keys_def)

lemma group_nonempty: "k \<in> set (group_keys rows) \<Longrightarrow> filter (\<lambda>r. fst r = k) rows \<noteq> []"
  by (auto simp: group_keys_set filter_empty_conv)

lemma pair_last_group:
  assumes "g = filter (\<lambda>r. fst r = k) rows" "g \<noteq> []"
  shows "(k, last (map snd g)) = last g" "(k, hd (map snd g)) = hd g"
proof -
  have "last g \<in> set g" "hd g \<in> set g" using assms(2) by simp_all
  then have "fst (last g) = k" "fst (hd g) = k" using assms(1) by auto
  then show "(k, last (map snd g)) = last g" "(k, hd (map snd g)) = hd g"
    using assms(2) by (simp_all add: last_map hd_map prod_eq_iff)
qed

lemma dedup_last_full:
  assumes "\<forall>r\<in>set rows. length (snd r) = w \<and> None \<notin> set (snd r)"
  shows "dedup ''last'' rows = map (\<lambda>k. last (filter (\<lambda>r. fst r = k) rows)) (group_keys rows)"
proof -
  have "(k, agg_columns last_valid (group_rows k rows)) = last (filter (\<lambda>r. fst r = k) rows)"
    if "k \<in> set (group_keys rows)" for k
  proof -
    let ?g = "filter (\<lambda>r. fst r = k) rows"
    have ne: "?g \<noteq> []" using that by (rule group_nonempty)
    have "\<forall>r\<in>set (map snd ?g). length r = w \<and> None \<notin> set r" using assms by auto
    then have "agg_columns last_valid (map snd ?g) = last (map snd ?g)"
      using ne agg_last_full [of "map snd ?g" w] by simp
    then show ?thesis using pair_last_group(1) [OF refl ne] by (simp add: group_rows_def)
  qed
  then show ?thesis by (simp add: dedup_def groupby_agg_def)
qed

lemma dedup_first_full:
  assumes "\<forall>r\<in>set rows. length (snd r) = w \<and> None \<notin> set (snd r)" "c \<noteq> ''last''"
  shows "dedup c rows = map (\<lambda>k. hd (filter (\<lambda>r. fst r = k) rows)) (group_keys rows)"
proof -
  have "(k, agg_columns first_valid (group_rows k rows)) = hd (filter (\<lambda>r. fst r = k) rows)"
    if "k \<in> set (group_keys rows)" for k
  proof -
    let ?g = "filter (\<lambda>r. fst r = k) rows"
    have ne: "?g \<noteq> []" using that by (rule group_nonempty)
    have "\<forall>r\<in>set (map snd ?g). length r = w \<and> None \<notin> set r" using assms by auto
    then have "agg_columns first_valid (map snd ?g) = hd (map snd ?g)"
      using ne agg_first_full [of "map snd ?g" w] by simp
    then show ?thesis using pair_last_group(2) [OF refl ne] by (simp add: group_rows_def)
  qed
  then show ?thesis using assms(2) by (simp add: dedup_def groupby_agg_def)
qed

lemma dedup_keys: "map fst (dedup c rows) = group_keys rows"
  by (simp add: dedup_def groupby_agg_def comp_def)

lemma group_keys_sorted_distinct: "sorted (group_keys rows) \<and> distinct (group_keys rows)"
  by (simp add: group_keys_def)

lemma dedup_cell:
  assumes "\<forall>r\<in>set rows. length (snd r) = w" "(k, cells) \<in> set (dedup c rows)" "j < w"
  shows "cells ! j = (if c = ''last'' then last_valid else first_valid) (map (\<lambda>r. r ! j) (group_rows k rows))"
proof -
  have k: "k \<in> set (group_keys rows)"
    and cells: "cells = agg_columns (if c = ''last'' then last_valid else first_valid) (group_rows k rows)"
    using assms(2) by (auto simp: dedup_def groupby_agg_def split: if_splits)
  have "filter (\<lambda>r. fst r = k) rows \<noteq> []" using k by (rule group_nonempty)
  then have "group_rows k rows \<noteq> []" unfolding group_rows_def by simp
  then have "hd (group_rows k rows) \<in> set (group_rows k rows)" by (rule hd_in_set)
  moreover have "\<forall>r\<in>set (group_rows k rows). length r = w"
    using assms(1) unfolding group_rows_def by auto
  ultimately have "length (hd (group_rows k rows)) = w" by blast
  then show ?thesis using assms(3) by (simp add: cells agg_columns_def)
qed


text \<open>
  C3, as stated, fails when a cell of the last occurrence is missing: the group's row is
  then not that occurrence, because each column keeps its own last value that is present.
\<close>

theorem dedup_last_counterexample:
  "dedup ''last'' [(100::nat, [Some 1]), (100, [None])] = [(100, [Some 1])]
   \<and> last [(100::nat, [Some 1]), (100, [None])] \<notin> set (dedup ''last'' [(100::nat, [Some 1]), (100, [None])])"
  by (simp add: dedup_def groupby_agg_def group_keys_def group_rows_def agg_columns_def last_valid_def)

text \<open>
  C3, amended.  Deduplication gives one row per distinct key, the keys in ascending order.
  Each column of that row holds the last value of the column that is present within the
  group when the tie-break is \<open>last\<close>, the first such value otherwise, and is missing
  when the group has no value in that column.  When no cell of the table is missing, the
  row is the last occurrence of the key under \<open>last\<close> and its first occurrence
  otherwise.  The rows (100, 1), (100, 2), (200, 3) give (100, 2), (200, 3) under
  \<open>last\<close> and (100, 1), (200, 3) under \<open>first\<close>.
\<close>

theorem dedup_policy:
  assumes "\<forall>r\<in>set rows. length (snd r) = w"
  shows "map fst (dedup c rows) = group_keys rows
       \<and> sorted (group_keys rows) \<and> distinct (group_keys rows) \<and> set (group_keys rows) = fst ` set rows
       \<and> (\<forall>k cells j i. (k, cells) \<in> set (dedup c rows) \<and> j < w \<and> i < length (group_rows k rows)
             \<and> group_rows k rows ! i ! j \<noteq> None
             \<and> (if c = ''last''
                 then \<forall>i'. i < i' \<and> i' < length (group_rows k rows) \<longrightarrow> group_rows k rows ! i' ! j = None
                 else \<forall>i'. i' < i \<longrightarrow> group_rows k rows ! i' ! j = None)
             \<longrightarrow> cells ! j = group_rows k rows ! i ! j)
       \<and> (\<forall>k cells j. (k, cells) \<in> set (dedup c rows) \<and> j < w
             \<and> (\<forall>i < length (group_rows k rows). group_rows k rows ! i ! j = None)
             \<longrightarrow> cells ! j = None)
       \<and> ((\<forall>r\<in>set rows. None \<notin> set (snd r)) \<longrightarrow>
            dedup c rows = map (\<lambda>k. (if c = ''last'' then last else hd) (filter (\<lambda>r. fst r = k) rows))
                               (group_keys rows))
       \<and> dedup ''last'' [(100::nat, [Some 1]), (100, [Some 2]), (200, [Some 3])]
            = [(100, [Some 2]), (200, [Some 3])]
       \<and> dedup ''first'' [(100::nat, [Some 1]), (100, [Some 2]), (200, [Some 3])]
            = [(100, [Some 1]), (200, [Some 3])]"
proof -
  have keys: "map fst (dedup c rows) = group_keys rows" by (rule dedup_keys)
  have srt: "sorted (group_keys rows)" and dst: "distinct (group_keys rows)"
    using group_keys_sorted_distinct [of rows] by simp_all
  have ks: "set (group_keys rows) = fst ` set rows" by (rule group_keys_set)
  have cell: "cells ! j = group_rows k rows ! i ! j"
    if "(k, cells) \<in> set (dedup c rows)" "j < w" "i < length (group_rows k rows)"
       "group_rows k rows ! i ! j \<noteq> None"
       "if c = ''last''
        then \<forall>i'. i < i' \<and> i' < length (group_rows k rows) \<longrightarrow> group_rows k rows ! i' ! j = None
        else \<forall>i'. i' < i \<longrightarrow> group_rows k rows ! i' ! j = None"
    for k cells j i
  proof -
    let ?col = "map (\<lambda>r. r ! j) (group_rows k rows)"
    have c: "cells ! j = (if c = ''last'' then last_valid else first_valid) ?col"
      using assms that(1,2) by (rule dedup_cell)
    have i: "i < length ?col" "?col ! i \<noteq> None" using that(3,4) by simp_all
    show ?thesis
    proof (cases "c = ''last''")
      case True
      then have "\<forall>i'. i < i' \<and> i' < length ?col \<longrightarrow> ?col ! i' = None" using that(5) by simp
      then have "last_valid ?col = ?col ! i" using i by (intro last_valid_at) simp_all
      then show ?thesis using c True that(3) by simp
    next
      case False
      then have "\<forall>i'. i' < i \<longrightarrow> ?col ! i' = None" using that(3,5) by simp
      then have "first_valid ?col = ?col ! i" using i by (intro first_valid_at) simp_all
      then show ?thesis using c False that(3) by simp
    qed
  qed
  have none: "cells ! j = None"
    if "(k, cells) \<in> set (dedup c rows)" "j < w"
       "\<forall>i < length (group_rows k rows). group_rows k rows ! i ! j = None"
    for k cells j
  proof -
    let ?col = "map (\<lambda>r. r ! j) (group_rows k rows)"
    have c: "cells ! j = (if c = ''last'' then last_valid else first_valid) ?col"
      using assms that(1,2) by (rule dedup_cell)
    have "\<forall>v\<in>set ?col. v = None" using that(3) by (auto simp: in_set_conv_nth)
    then show ?thesis using c by (simp add: last_valid_none first_valid_none)
  qed
  have full: "dedup c rows = map (\<lambda>k. (if c = ''last'' then last else hd) (filter (\<lambda>r. fst r = k) rows))
                               (group_keys rows)"
    if "\<forall>r\<in>set rows. None \<notin> set (snd r)"
  proof (cases "c = ''last''")
    case True
    then show ?thesis using dedup_last_full [of rows w] assms that by simp
  next
    case False
    then show ?thesis using dedup_first_full [of rows w c] assms that by simp
  qed
  have ex1: "dedup ''last'' [(100::nat, [Some 1]), (100, [Some 2]), (200, [Some 3])]
            = [(100, [Some 2]), (200, [Some 3])]"
    by (simp add: dedup_def groupby_agg_def group_keys_def group_rows_def agg_columns_def last_valid_def)
  have ex2: "dedup ''first'' [(100::nat, [Some 1]), (100, [Some 2]), (200, [Some 3])]
            = [(100, [Some 1]), (200, [Some 3])]"
    by (simp add: dedup_def groupby_agg_def group_keys_def group_rows_def agg_columns_def first_valid_def)
  have cell': "\<forall>k cells j i. (k, cells) \<in> set (dedup c rows) \<and> j < w \<and> i < length (group_rows k rows)
             \<and> group_rows k rows ! i ! j \<noteq> None
             \<and> (if c = ''last''
                 then \<forall>i'. i < i' \<and> i' < length (group_rows k rows) \<longrightarrow> group_rows k rows ! i' ! j = None
                 else \<forall>i'. i' < i \<longrightarrow> group_rows k rows ! i' ! j = None)
             \<longrightarrow> cells ! j = group_rows k rows ! i ! j"
    using cell by (intro allI impI) (elim conjE)
  have none': "\<forall>k cells j. (k, cells) \<in> set (dedup c rows) \<and> j < w
             \<and> (\<forall>i < length (group_rows k rows). group_rows k rows ! i ! j = None)
             \<longrightarrow> cells ! j = None"
    using none by (intro allI impI) (elim conjE)
  have full': "(\<forall>r\<in>set rows. None \<notin> set (snd r)) \<longrightarrow>
            dedup c rows = map (\<lambda>k. (if c = ''last'' then last else hd) (filter (\<lambda>r. fst r = k) rows))
                               (group_keys rows)"
    using full by (rule impI)
  show ?thesis
    by (intro conjI keys srt dst ks cell' none' full' ex1 ex2)
qed


theorem dedup_policy_witness:
  "dedup ''last'' [(7::nat, [Some 1, Some 5]), (3, [Some 4, Some 6]), (7, [Some 2, Some 8])]
     = [(3, [Some 4, Some 6]), (7, [Some 2, Some 8])]"
proof -
  have w: "\<forall>r\<in>set [(7::nat, [Some 1, Some 5]), (3, [Some 4, Some 6]), (7, [Some 2, Some (8::real)])]. length (snd r) = 2"
    by simp
  show ?thesis
    using dedup_policy [OF w, of "''last''"] by (simp add: group_keys_def)
qed


text \<open>
  C9.  Any tie-break value other than the string \<open>last\<close> deduplicates all three
  streams exactly as \<open>first\<close> does; the conversion has no error branch for an
  unrecognised value.
\<close>

theorem tie_break_not_last_is_first:
  "groupby_choice \<noteq> ''last'' \<Longrightarrow>
     mm_dedup groupby_choice eeg_raw accel_raw gyro_raw = mm_dedup ''first'' eeg_raw accel_raw gyro_raw"
  by (simp add: mm_dedup_def dedup_def)

theorem tie_break_not_last_is_first_witness:
  "mm_dedup ''frist'' [(1::nat, [Some 1]), (1, [Some 2])] [(1, [Some 3]), (1, [Some 4])] [(2, [None]), (2, [Some 5])]
     = ([(1, [Some 1])], [(1, [Some 3])], [(2, [Some 5])])"
proof -
  have h: "''frist'' \<noteq> ''last''" by simp
  show ?thesis
    unfolding tie_break_not_last_is_first [OF h]
    by (simp add: mm_dedup_def dedup_def groupby_agg_def group_keys_def group_rows_def
        agg_columns_def first_valid_def)
qed


section \<open>Properties of analysis/psd.py\<close>

subsection \<open>The axes returned by compute_muse_psd\<close>














subsection \<open>The band-power aggregator\<close>

lemma collect_all_Inr:
  "(\<forall>x\<in>set xs. f x = Inr (g x)) \<Longrightarrow> collect (map f xs) = Inr (map g xs)"
  by (induction xs) simp_all

lemma band_idx_set: "set (band_idx freqs fmin fmax) = {i. in_band freqs fmin fmax i}"
  by (auto simp: band_idx_def in_band_def)

lemma band_idx_distinct: "distinct (band_idx freqs fmin fmax)"
  by (simp add: band_idx_def)

lemma band_idx_empty:
  "band_idx freqs fmin fmax = [] \<longleftrightarrow> \<not> (\<exists>i < length freqs. in_band freqs fmin fmax i)"
proof -
  have "band_idx freqs fmin fmax = [] \<longleftrightarrow> set (band_idx freqs fmin fmax) = {}" by simp
  also have "\<dots> \<longleftrightarrow> \<not> (\<exists>i < length freqs. in_band freqs fmin fmax i)"
    unfolding band_idx_set by (auto simp: in_band_def)
  finally show ?thesis .
qed

lemma sum_band_idx:
  "sum_list (map g (band_idx freqs fmin fmax)) = (\<Sum>i | in_band freqs fmin fmax i. g i)"
  using sum_list_distinct_conv_sum_set [OF band_idx_distinct, of g freqs fmin fmax]
  by (simp add: band_idx_set)

lemma zip_map_upt:
  "map (\<lambda>(t, v). h t v) (zip ts (map f [0 ..< n])) = map (\<lambda>j. h (ts ! j) (f j)) [0 ..< min (length ts) n]"
  by (rule nth_equalityI) simp_all

lemma band_records_spec:
  assumes rows: "length S = length freqs" and cols: "\<forall>row\<in>set S. length row = n"
  shows "band_records freqs times' ch (map (map (\<lambda>d. 10 powr (d / 10))) S) (band, fmin, fmax)
       = Inr (if \<exists>i < length freqs. in_band freqs fmin fmax i
              then map (\<lambda>j. (times' ! j, ch, band, band_power_spec freqs S fmin fmax j))
                     [0 ..< min (length times') n]
              else [])"
proof (cases "band_idx freqs fmin fmax = []")
  case True
  then have "\<not> (\<exists>i < length freqs. in_band freqs fmin fmax i)"
    using band_idx_empty [of freqs fmin fmax] by simp
  then show ?thesis using True
    by (auto simp: band_records_def Let_def)
next
  case False
  let ?idx = "band_idx freqs fmin fmax"
  let ?L = "map (map (\<lambda>d. 10 powr (d / 10))) S"
  have ex: "\<exists>i < length freqs. in_band freqs fmin fmax i"
    using False band_idx_empty [of freqs fmin fmax] by simp
  then have ne: "S \<noteq> []" using rows by auto
  have inb: "\<forall>i\<in>set ?idx. i < length S"
    using rows by (simp add: band_idx_set in_band_def)
  have hdn: "length (hd ?L) = n" using ne cols by (cases S) simp_all
  have entry: "?L ! i ! j = 10 powr (S ! i ! j / 10)" if "i \<in> set ?idx" "j < n" for i j
  proof -
    have i: "i < length S" using that(1) inb by blast
    then have "length (S ! i) = n" using cols by simp
    then show ?thesis using i that(2) by simp
  qed
  have col: "sum_list (map (\<lambda>i. ?L ! i ! j) ?idx)
      = (\<Sum>i | in_band freqs fmin fmax i. 10 powr (S ! i ! j / 10))" if "j < n" for j
  proof -
    have "map (\<lambda>i. ?L ! i ! j) ?idx = map (\<lambda>i. 10 powr (S ! i ! j / 10)) ?idx"
      using entry that by (intro map_cong) simp_all
    then show ?thesis by (simp only: sum_band_idx)
  qed
  have sr: "sum_rows ?L ?idx
      = Inr (map (\<lambda>j. \<Sum>i | in_band freqs fmin fmax i. 10 powr (S ! i ! j / 10)) [0 ..< n])"
  proof -
    have "\<not> (\<exists>i\<in>set ?idx. i \<ge> length ?L)" using inb by auto
    moreover have "map (\<lambda>j. sum_list (map (\<lambda>i. ?L ! i ! j) ?idx)) [0 ..< n]
        = map (\<lambda>j. \<Sum>i | in_band freqs fmin fmax i. 10 powr (S ! i ! j / 10)) [0 ..< n]"
      using col by (intro map_cong) simp_all
    ultimately show ?thesis unfolding sum_rows_def hdn by simp
  qed
  have "band_records freqs times' ch ?L (band, fmin, fmax)
      = Inr (map (\<lambda>(t, val). (t, ch, band, val))
               (zip times' (map (\<lambda>j. band_power_spec freqs S fmin fmax j) [0 ..< n])))"
    using False by (simp add: band_records_def Let_def sr band_power_spec_def comp_def)
  also have "\<dots> = Inr (map (\<lambda>j. (times' ! j, ch, band, band_power_spec freqs S fmin fmax j))
                     [0 ..< min (length times') n])"
    by (simp only: zip_map_upt)
  finally show ?thesis using ex by simp
qed

lemma channel_records_spec:
  assumes "length S = length freqs" "\<forall>row\<in>set S. length row = n"
  shows "channel_records freqs times' (ch, S)
       = Inr (concat (map (\<lambda>(band, fmin, fmax).
           if \<exists>i < length freqs. in_band freqs fmin fmax i
           then map (\<lambda>j. (times' ! j, ch, band, band_power_spec freqs S fmin fmax j))
                  [0 ..< min (length times') n]
           else []) BANDS))"
proof -
  let ?g = "\<lambda>(band, fmin, fmax).
           if \<exists>i < length freqs. in_band freqs fmin fmax i
           then map (\<lambda>j. (times' ! j, ch, band, band_power_spec freqs S fmin fmax j))
                  [0 ..< min (length times') n]
           else []"
  have "\<forall>b\<in>set BANDS. band_records freqs times' ch (map (map (\<lambda>d. 10 powr (d / 10))) S) b = Inr (?g b)"
    using band_records_spec [OF assms] by auto
  then have "collect (map (band_records freqs times' ch (map (map (\<lambda>d. 10 powr (d / 10))) S)) BANDS)
      = Inr (map ?g BANDS)"
    by (rule collect_all_Inr)
  then show ?thesis by (simp add: channel_records_def Let_def)
qed

lemma bandpowers_refines:
  assumes "\<forall>(ch, S)\<in>set psd. length S = length freqs \<and> (\<forall>row\<in>set S. length row = n)"
  shows "compute_bandpowers_time_series freqs times' psd = Inr (bandpowers_spec freqs times' psd n)"
proof -
  let ?g = "\<lambda>(ch, S). concat (map (\<lambda>(band, fmin, fmax).
           if \<exists>i < length freqs. in_band freqs fmin fmax i
           then map (\<lambda>j. (times' ! j, ch, band, band_power_spec freqs S fmin fmax j))
                  [0 ..< min (length times') n]
           else []) BANDS)"
  have "\<forall>e\<in>set psd. channel_records freqs times' e = Inr (?g e)"
  proof
    fix e assume e: "e \<in> set psd"
    obtain ch S where cs: "e = (ch, S)" by (cases e) auto
    have "length S = length freqs" "\<forall>row\<in>set S. length row = n" using assms e cs by auto
    then show "channel_records freqs times' e = Inr (?g e)"
      unfolding cs using channel_records_spec by simp
  qed
  then have "collect (map (channel_records freqs times') psd) = Inr (map ?g psd)"
    by (rule collect_all_Inr)
  then show ?thesis by (simp add: compute_bandpowers_time_series_def bandpowers_spec_def)
qed

lemma bandpowers_spec_band:
  assumes "(t, ch, band, v) \<in> set (bandpowers_spec freqs times' psd n)"
  shows "\<exists>fmin fmax. (band, fmin, fmax) \<in> set BANDS \<and> (\<exists>i < length freqs. in_band freqs fmin fmax i)"
  using assms unfolding bandpowers_spec_def by (auto split: if_splits)

lemma BANDS_functional:
  "(band, fmin, fmax) \<in> set BANDS \<Longrightarrow> (band, fmin', fmax') \<in> set BANDS \<Longrightarrow> fmin' = fmin \<and> fmax' = fmax"
  by (auto simp: BANDS_def)

text \<open>
  C4.  For grids in decibels with one row per frequency bin and \<open>n\<close> time frames per row,
  the aggregator returns, channel by channel and band by band in the order of the
  catalogue, one record per time frame whose value is \<open>log10 (S + 1e-12)\<close>, \<open>S\<close> the sum
  of \<open>10^(dB/10)\<close> over the bins whose centre lies in \<open>[fmin, fmax]\<close>; it raises nothing,
  and a band of the catalogue that matches no bin has no record in the result.
\<close>

theorem bandpowers_sum_linear_power_in_band:
  assumes "\<forall>(ch, S)\<in>set psd. length S = length freqs \<and> (\<forall>row\<in>set S. length row = n)"
  shows "compute_bandpowers_time_series freqs times' psd = Inr (bandpowers_spec freqs times' psd n)
       \<and> (\<forall>band fmin fmax t ch v.
            (band, fmin, fmax) \<in> set BANDS \<and> \<not> (\<exists>i < length freqs. in_band freqs fmin fmax i)
            \<longrightarrow> (t, ch, band, v) \<notin> set (bandpowers_spec freqs times' psd n))"
proof (intro conjI allI impI)
  show "compute_bandpowers_time_series freqs times' psd = Inr (bandpowers_spec freqs times' psd n)"
    using assms by (rule bandpowers_refines)
next
  fix band fmin fmax t ch v
  assume h: "(band, fmin, fmax) \<in> set BANDS \<and> \<not> (\<exists>i < length freqs. in_band freqs fmin fmax i)"
  show "(t, ch, band, v) \<notin> set (bandpowers_spec freqs times' psd n)"
  proof
    assume "(t, ch, band, v) \<in> set (bandpowers_spec freqs times' psd n)"
    then obtain fmin' fmax' where b: "(band, fmin', fmax') \<in> set BANDS"
      and i: "\<exists>i < length freqs. in_band freqs fmin' fmax' i"
      using bandpowers_spec_band by blast
    have "fmin' = fmin \<and> fmax' = fmax" using h b by (intro BANDS_functional) simp_all
    then show False using h i by blast
  qed
qed

theorem bandpowers_sum_linear_power_in_band_witness:
  "compute_bandpowers_time_series [2] [0] [(''AF7'', [[10]])]
     = Inr (bandpowers_spec [2] [0] [(''AF7'', [[10]])] 1)
   \<and> compute_bandpowers_time_series [2] [0] [(''AF7'', [[10]])]
     = Inr [(0, ''AF7'', ''delta'', log 10 (10 + 1 / 10 ^ 12))]"
proof -
  have s: "\<forall>(ch, S)\<in>set [(''AF7'', [[10::real]])]. length S = length [2::real] \<and> (\<forall>row\<in>set S. length row = 1)"
    by simp
  have e: "compute_bandpowers_time_series [2] [0] [(''AF7'', [[10]])]
     = Inr [(0, ''AF7'', ''delta'', log 10 (10 + 1 / 10 ^ 12))]"
    by (simp add: compute_bandpowers_time_series_def channel_records_def band_records_def
        band_idx_def sum_rows_def BANDS_def Let_def)
  show ?thesis using bandpowers_sum_linear_power_in_band [OF s, of "[0]"] e by simp
qed


section \<open>Properties of the configuration\<close>

lemma psd_channels_args:
  "psd_channels sp df win chs st = psd_channels (\<lambda>x args. sp x (psd_args win)) df win chs st"
proof (induction chs arbitrary: st)
  case Nil
  show ?case by simp
next
  case (Cons ch chs)
  obtain psd freqs tms where st: "st = (psd, freqs, tms)" by (cases st) auto
  show ?case
    unfolding st by (auto simp: Cons.IH Let_def split: option.split sum.split)
qed

text \<open>
  C7, as stated, fails: the sample rate, the notch frequency and quality factor, the
  band-pass cutoffs and order, the window size and the hop size are not inputs.  Whatever
  the caller passes, the designers receive 60, 25, 256 and 4, (1, 40), 256, and the
  estimator receives 256, 256 and 234.
\<close>

theorem parameters_not_inputs_counterexample:
  "filter_design echo_iirnotch echo_butter = (([60, 25, 256], [1]), ([4, 1, 40, 256], [1]))
   \<and> compute_muse_psd echo_window echo_spectrogram
       [(''AF7'', Numeric []), (''AF8'', Numeric []), (''TP9'', Numeric []), (''TP10'', Numeric [])]
     = Inr (Some [], Some [256, 256, 234],
            [(''AF7'', []), (''AF8'', []), (''TP9'', []), (''TP10'', [])])"
  by (simp add: filter_design_def echo_iirnotch_def echo_butter_def NOTCH_FREQ_def NOTCH_Q_def
      FS_def BANDPASS_ORDER_def BANDPASS_LOW_def BANDPASS_HIGH_def
      compute_muse_psd_def CHANNELS_def Let_def echo_spectrogram_def echo_window_def
      psd_args_def valid_values_def SAMPLE_RATE_def WINDOW_SIZE_def SLIDE_RATE_def)

text \<open>
  C7, amended.  The numeric parameters are named constants of the two modules, read by
  \<open>filter_eeg\<close> and \<open>compute_muse_psd\<close>; neither function takes one of them as an
  argument.  The designers and the estimator are called at these constants only: the
  result of either function is unchanged when the designer, the window function or the
  estimator is replaced by one that ignores its arguments and answers as the original does
  at the constants.
\<close>

theorem parameters_are_module_constants:
  "filter_design iirnotch butter = (iirnotch 60 25 256, butter 4 (1, 40) 256)
   \<and> filter_eeg np_mean iirnotch butter lfilter_zi df apply_bandpass
       = filter_eeg np_mean (\<lambda>w0 Q rate. iirnotch 60 25 256)
           (\<lambda>N band rate. butter 4 (1, 40) 256) lfilter_zi df apply_bandpass
   \<and> compute_muse_psd get_window spectrogram df'
       = compute_muse_psd (\<lambda>name n. get_window ''hamming'' 256)
           (\<lambda>x args. spectrogram x
              \<lparr>fs = 256, window = get_window ''hamming'' 256, nperseg = 256, noverlap = 234,
               scaling = ''density'', mode = ''psd''\<rparr>) df'"
proof (intro conjI)
  show "filter_design iirnotch butter = (iirnotch 60 25 256, butter 4 (1, 40) 256)"
    by (simp add: filter_design_def NOTCH_FREQ_def NOTCH_Q_def FS_def BANDPASS_ORDER_def
        BANDPASS_LOW_def BANDPASS_HIGH_def)
  show "filter_eeg np_mean iirnotch butter lfilter_zi df apply_bandpass
       = filter_eeg np_mean (\<lambda>w0 Q rate. iirnotch 60 25 256)
           (\<lambda>N band rate. butter 4 (1, 40) 256) lfilter_zi df apply_bandpass"
    unfolding filter_eeg_def filter_design_def NOTCH_FREQ_def NOTCH_Q_def FS_def
      BANDPASS_ORDER_def BANDPASS_LOW_def BANDPASS_HIGH_def
    by (rule refl)
  have args: "psd_args (get_window ''hamming'' 256)
      = \<lparr>fs = 256, window = get_window ''hamming'' 256, nperseg = 256, noverlap = 234,
         scaling = ''density'', mode = ''psd''\<rparr>"
    by (simp add: psd_args_def SAMPLE_RATE_def WINDOW_SIZE_def SLIDE_RATE_def)
  show "compute_muse_psd get_window spectrogram df'
       = compute_muse_psd (\<lambda>name n. get_window ''hamming'' 256)
           (\<lambda>x args. spectrogram x
              \<lparr>fs = 256, window = get_window ''hamming'' 256, nperseg = 256, noverlap = 234,
               scaling = ''density'', mode = ''psd''\<rparr>) df'"
    unfolding compute_muse_psd_def Let_def
    using psd_channels_args [of spectrogram df' "get_window ''hamming'' 256" CHANNELS "([], None, None)"]
    by (simp add: args WINDOW_SIZE_def)
qed

theorem parameters_are_module_constants_witness:
  "filter_design echo_iirnotch echo_butter
     = (echo_iirnotch 60 25 256, echo_butter 4 (1, 40) 256)
   \<and> echo_iirnotch 60 25 256 = ([60, 25, 256], [1])"
  using parameters_are_module_constants [of echo_iirnotch echo_butter mean64 zero_zi "[]" False echo_window echo_spectrogram "[]"]
  by (simp add: echo_iirnotch_def)

section \<open>Properties of processing/filter.py\<close>

subsection \<open>Rounding\<close>

lemma float64_zero: "float64 0 = 0"
  by (simp add: float64_def)

lemma float64_at:
  assumes "2 powi (e + 52) \<le> \<bar>x\<bar>" and "\<bar>x\<bar> < 2 powi (e + 53)"
  shows "float64 x = of_int (round_even (x / 2 powi e)) * 2 powi e"
proof -
  have "(0::real) < 2 powi (e + 52)" by simp
  then have pos: "0 < \<bar>x\<bar>" using assms(1) by linarith
  have p1: "(2::real) powr real_of_int (e + 52) = 2 powi (e + 52)"
    by (rule powr_real_of_int') simp_all
  have p2: "(2::real) powr real_of_int (e + 52 + 1) = 2 powi (e + 53)"
    using powr_real_of_int' [of "2::real" "e + 52 + 1"] by (simp add: add.assoc)
  have "\<lfloor>log 2 \<bar>x\<bar>\<rfloor> = e + 52"
    using floor_log_eq_powr_iff [of "\<bar>x\<bar>" 2 "e + 52"] pos assms p1 p2 by simp
  then show ?thesis using pos by (simp add: float64_def)
qed

lemma d01_twice: "float64 (d01 + d01) = 3602879701896397 / 2 ^ 54"
  using float64_at [of "-55" "d01 + d01"]
  by (simp add: d01_def round_even_def power_int_minus)

lemma d01_thrice: "float64 (3602879701896397 / 2 ^ 54 + d01) = 5404319552844596 / 2 ^ 54"
  using float64_at [of "-54" "3602879701896397 / 2 ^ 54 + d01"]
  by (simp add: d01_def round_even_def power_int_minus)

lemma d01_third: "float64 (5404319552844596 / 2 ^ 54 / 3) = 7205759403792795 / 2 ^ 56"
  using float64_at [of "-56" "5404319552844596 / 2 ^ 54 / 3"]
  by (simp add: round_even_def power_int_minus)

lemma d01_residual: "float64 (d01 - 7205759403792795 / 2 ^ 56) = - (1 / 2 ^ 56)"
  using float64_at [of "-108" "d01 - 7205759403792795 / 2 ^ 56"]
  by (simp add: d01_def round_even_def power_int_minus)

lemma mean64_d01: "mean64 [d01, d01, d01] = 7205759403792795 / 2 ^ 56"
proof -
  have "mean64 [d01, d01, d01] = float64 (float64 (float64 (d01 + d01) + d01) / 3)"
    by (simp add: mean64_def)
  also have "\<dots> = float64 (float64 (3602879701896397 / 2 ^ 54 + d01) / 3)"
    by (simp only: d01_twice)
  also have "\<dots> = float64 (5404319552844596 / 2 ^ 54 / 3)"
    by (simp only: d01_thrice)
  also have "\<dots> = 7205759403792795 / 2 ^ 56"
    by (rule d01_third)
  finally show ?thesis .
qed

lemma foldl_add_zero: "foldl (\<lambda>s v. float64 (s + v)) 0 (replicate n 0) = 0"
  by (induction n) (simp_all add: float64_zero)

lemma mean64_zero: "mean64 (replicate n 0) = 0"
proof (cases n)
  case 0
  then show ?thesis by (simp add: mean64_def)
next
  case (Suc m)
  then show ?thesis by (simp add: mean64_def foldl_add_zero float64_zero)
qed

subsection \<open>De-meaning and filtering of constant and zero channels\<close>

lemma all_zero_replicate: "(\<forall>v\<in>set xs. v = (0::real)) \<Longrightarrow> xs = replicate (length xs) 0"
  by (induction xs) simp_all

lemma demean_replicate:
  "demean np_mean (replicate n c) = replicate n (float64 (c - np_mean (replicate n c)))"
  by (simp add: demean_def map_replicate)

lemma demean_zero:
  "np_mean (replicate n 0) = 0 \<Longrightarrow> demean np_mean (replicate n 0) = replicate n 0"
  by (simp add: demean_replicate float64_zero)

lemma lfilter_run_length: "length (lfilter_run b a z xs) = length xs"
  by (induction xs arbitrary: z) (simp_all add: Let_def)

lemma lfilter_run_zero:
  "(\<forall>v\<in>set z. v = 0) \<Longrightarrow> (\<forall>v\<in>set xs. v = 0) \<Longrightarrow> \<forall>v\<in>set (lfilter_run b a z xs). v = 0"
proof (induction xs arbitrary: z)
  case Nil
  show ?case by simp
next
  case (Cons x xs)
  have x: "x = 0" using Cons.prems(2) by simp
  have hz: "hd (z @ [0]) = 0" using Cons.prems(1) by (cases z) simp_all
  have y: "float64 (hd (z @ [0]) + float64 (hd b * x)) = 0" using x hz by (simp add: float64_zero)
  let ?z' = "map (\<lambda>(bi, ai, zn). float64 (float64 (zn + float64 (x * bi))
                    - float64 (float64 (hd (z @ [0]) + float64 (hd b * x)) * ai)))
               (zip (tl b) (zip (tl a) (tl z @ [0])))"
  have tz: "\<forall>v\<in>set (tl z @ [0]). v = 0"
    using Cons.prems(1) by (cases z) simp_all
  have "\<forall>v\<in>set ?z'. v = 0"
  proof
    fix v assume "v \<in> set ?z'"
    then obtain bi ai zn where m: "(bi, ai, zn) \<in> set (zip (tl b) (zip (tl a) (tl z @ [0])))"
      and v: "v = float64 (float64 (zn + float64 (x * bi))
                    - float64 (float64 (hd (z @ [0]) + float64 (hd b * x)) * ai))" by auto
    from m have "(ai, zn) \<in> set (zip (tl a) (tl z @ [0]))" by (rule set_zip_rightD)
    then have "zn \<in> set (tl z @ [0])" by (rule set_zip_rightD)
    then have "zn = 0" using tz by blast
    then show "v = 0" unfolding v y using x by (simp add: float64_zero)
  qed
  moreover have "\<forall>v\<in>set xs. v = 0" using Cons.prems(2) by simp
  ultimately have "\<forall>v\<in>set (lfilter_run b a ?z' xs). v = 0" by (rule Cons.IH)
  then show ?case using y by (simp add: Let_def)
qed

lemma lfilter_zero:
  assumes "\<forall>v\<in>set xs. v = 0" and "a \<noteq> []" and "hd a \<noteq> 0"
  shows "lfilter b a xs (map (\<lambda>z. float64 (z * 0)) zi) = Inr (replicate (length xs) 0)"
proof -
  let ?n = "max (length a) (length b)"
  let ?bn = "map (\<lambda>c. float64 (c / hd a)) (b @ replicate (?n - length b) 0)"
  let ?an = "map (\<lambda>c. float64 (c / hd a)) (a @ replicate (?n - length a) 0)"
  let ?r = "lfilter_run ?bn ?an (map (\<lambda>z. float64 (z * 0)) zi) xs"
  have "\<forall>v\<in>set (map (\<lambda>z. float64 (z * (0::real))) zi). v = 0" by (simp add: float64_zero)
  then have "\<forall>v\<in>set ?r. v = 0" using assms(1) by (rule lfilter_run_zero)
  moreover have "length ?r = length xs" by (rule lfilter_run_length)
  ultimately have "?r = replicate (length xs) 0" using all_zero_replicate [of ?r] by simp
  then show ?thesis using assms(2,3) by (simp add: lfilter_def Let_def)
qed

lemma odd_ext_zero:
  assumes "e < n"
  shows "odd_ext (replicate n 0) e = replicate (n + 2 * e) 0"
proof -
  let ?x = "replicate n (0::real)"
  have n: "0 < n" using assms by simp
  have hd: "hd ?x = 0" and last: "last ?x = 0" using n by simp_all
  have tl: "tl ?x = replicate (n - 1) 0" by (cases n) simp_all
  have bl: "butlast ?x = replicate (n - 1) 0" by (simp add: butlast_conv_take)
  have left: "map (\<lambda>v. float64 (float64 (2 * hd ?x) - v)) (rev (take e (tl ?x))) = replicate e 0"
    using assms by (simp add: hd tl min_def float64_zero)
  have right: "map (\<lambda>v. float64 (float64 (2 * last ?x) - v))
                 (rev (drop (length ?x - 1 - e) (butlast ?x))) = replicate e 0"
    using assms by (simp add: last bl float64_zero)
  show ?thesis
    unfolding odd_ext_def left right
    by (simp add: replicate_add [symmetric])
qed

lemma filtfilt_zero:
  assumes "3 * max (length a) (length b) < n" and "a \<noteq> []" and "hd a \<noteq> 0"
  shows "filtfilt lfilter_zi b a (replicate n 0) = Inr (replicate n 0)"
proof -
  let ?e = "max (length a) (length b) * 3"
  have e: "?e < n" using assms(1) by (simp add: mult.commute)
  have nz: "\<not> list_all (\<lambda>c. c = 0) a" using assms(2,3) by (cases a) simp_all
  let ?ext = "if ?e > 0 then odd_ext (replicate n 0) ?e else replicate n (0::real)"
  have ext: "?ext = replicate (n + 2 * ?e) 0"
    using odd_ext_zero [OF e] by simp
  have x0: "hd ?ext = 0" using e unfolding ext by simp
  let ?zi = "lfilter_zi b a"
  have y1: "lfilter b a ?ext (map (\<lambda>z. float64 (z * hd ?ext)) ?zi) = Inr (replicate (n + 2 * ?e) 0)"
    unfolding x0 unfolding ext
    using lfilter_zero [of "replicate (n + 2 * ?e) 0" a b ?zi] assms(2,3) by simp
  have y0: "last (replicate (n + 2 * ?e) (0::real)) = 0" using e by simp
  have y2: "lfilter b a (rev (replicate (n + 2 * ?e) 0))
              (map (\<lambda>z. float64 (z * last (replicate (n + 2 * ?e) (0::real)))) ?zi)
            = Inr (replicate (n + 2 * ?e) 0)"
    unfolding y0
    using lfilter_zero [of "replicate (n + 2 * ?e) 0" a b ?zi] assms(2,3) by simp
  have cut: "(if ?e > 0 then take (length (rev (replicate (n + 2 * ?e) (0::real))) - 2 * ?e)
                               (drop ?e (rev (replicate (n + 2 * ?e) (0::real))))
             else rev (replicate (n + 2 * ?e) (0::real)))
             = replicate n 0"
    by simp
  show ?thesis
    unfolding filtfilt_def Let_def y1 using e nz
    by (simp only: y1 y2 cut Let_def sum.case if_False not_le [symmetric] simp_thms) simp
qed

lemma filtfilt_short:
  "n \<le> 3 * max (length a) (length b) \<Longrightarrow> length x = n \<Longrightarrow>
   filtfilt lfilter_zi b a x =
     Inl (ValueError ''The length of the input vector x must be greater than padlen'')"
  by (simp add: filtfilt_def Let_def mult.commute)

text \<open>
  C6, as stated, fails twice.  De-meaning the constant channel of three samples 0.1 leaves
  \<open>-2\<^sup>-\<^sup>5\<^sup>6\<close> in each sample: the rounded sum is 0.30000000000000004 and the
  rounded mean is the double after 0.1.  And the zero-phase filter refuses an input that is
  not longer than its padding, three times the number of coefficients: with the three
  coefficients of a notch, an all-zero channel of nine samples raises \<open>ValueError\<close>.
\<close>

theorem constant_and_short_channel_counterexample:
  "demean mean64 [d01, d01, d01] = [- (1 / 2 ^ 56), - (1 / 2 ^ 56), - (1 / 2 ^ 56)]
   \<and> filter_channel mean64 zero_zi ([1, 2, 1], [1, 0, 0]) ([1], [1]) False
        [0, 0, 0, 0, 0, 0, 0, 0, 0]
      = Inl (ValueError ''The length of the input vector x must be greater than padlen'')"
proof
  show "demean mean64 [d01, d01, d01] = [- (1 / 2 ^ 56), - (1 / 2 ^ 56), - (1 / 2 ^ 56)]"
    unfolding demean_def mean64_d01 by (simp only: list.map d01_residual)
  show "filter_channel mean64 zero_zi ([1, 2, 1], [1, 0, 0]) ([1], [1]) False
        [0, 0, 0, 0, 0, 0, 0, 0, 0]
      = Inl (ValueError ''The length of the input vector x must be greater than padlen'')"
    by (simp add: filter_channel_def filtfilt_def demean_def Let_def)
qed

text \<open>
  C6, amended.  De-meaning a constant channel gives a constant channel of the same length:
  each sample is the rounded difference of the value and the computed mean, which is zero
  when the computed mean is the value itself, as it is for the all-zero channel.  The
  zero-phase filter, for coefficients with a nonzero leading denominator coefficient, maps
  an all-zero channel to the all-zero channel of the same length when the channel is longer
  than three times the number of filter coefficients, and raises \<open>ValueError\<close> when it is
  not.  So an all-zero channel that is longer than the padding of the notch, and of the
  band-pass when that is enabled, leaves \<open>filter_channel\<close> as the all-zero channel.
\<close>

theorem demean_residual_and_filter_preserve_zero:
  "demean np_mean (replicate n c) = replicate n (float64 (c - np_mean (replicate n c)))
   \<and> (np_mean (replicate n c) = c \<longrightarrow> demean np_mean (replicate n c) = replicate n 0)
   \<and> (a \<noteq> [] \<and> hd a \<noteq> 0 \<and> 3 * max (length a) (length b) < n \<longrightarrow>
        filtfilt lfilter_zi b a (replicate n 0) = Inr (replicate n 0))
   \<and> (np_mean (replicate n 0) = 0 \<and>
      snd notch \<noteq> [] \<and> hd (snd notch) \<noteq> 0 \<and>
      3 * max (length (snd notch)) (length (fst notch)) < n \<and>
      (apply_bandpass \<longrightarrow> snd bp \<noteq> [] \<and> hd (snd bp) \<noteq> 0 \<and>
         3 * max (length (snd bp)) (length (fst bp)) < n) \<longrightarrow>
        filter_channel np_mean lfilter_zi notch bp apply_bandpass (replicate n 0)
          = Inr (replicate n 0))
   \<and> (n \<le> 3 * max (length a) (length b) \<longrightarrow>
        (\<exists>msg. filtfilt lfilter_zi b a (replicate n 0) = Inl (ValueError msg)))"
proof (intro conjI impI)
  show "demean np_mean (replicate n c) = replicate n (float64 (c - np_mean (replicate n c)))"
    by (rule demean_replicate)
  show "demean np_mean (replicate n c) = replicate n 0" if "np_mean (replicate n c) = c"
    using that by (simp add: demean_replicate float64_zero)
  show "filtfilt lfilter_zi b a (replicate n 0) = Inr (replicate n 0)"
    if "a \<noteq> [] \<and> hd a \<noteq> 0 \<and> 3 * max (length a) (length b) < n"
    using that by (intro filtfilt_zero) simp_all
  show "filter_channel np_mean lfilter_zi notch bp apply_bandpass (replicate n 0)
          = Inr (replicate n 0)"
    if h: "np_mean (replicate n 0) = 0 \<and>
      snd notch \<noteq> [] \<and> hd (snd notch) \<noteq> 0 \<and>
      3 * max (length (snd notch)) (length (fst notch)) < n \<and>
      (apply_bandpass \<longrightarrow> snd bp \<noteq> [] \<and> hd (snd bp) \<noteq> 0 \<and>
         3 * max (length (snd bp)) (length (fst bp)) < n)"
  proof -
    have d: "demean np_mean (replicate n 0) = replicate n 0"
      using h by (intro demean_zero) simp
    have n1: "filtfilt lfilter_zi (fst notch) (snd notch) (replicate n 0) = Inr (replicate n 0)"
      using h by (intro filtfilt_zero) simp_all
    show ?thesis
    proof (cases apply_bandpass)
      case True
      then have "filtfilt lfilter_zi (fst bp) (snd bp) (replicate n 0) = Inr (replicate n 0)"
        using h by (intro filtfilt_zero) simp_all
      then show ?thesis using True n1 by (simp add: filter_channel_def d)
    next
      case False
      then show ?thesis using n1 by (simp add: filter_channel_def d)
    qed
  qed
  show "\<exists>msg. filtfilt lfilter_zi b a (replicate n 0) = Inl (ValueError msg)"
    if "n \<le> 3 * max (length a) (length b)"
    using filtfilt_short [OF that, of "replicate n 0" lfilter_zi] by simp
qed

theorem demean_residual_and_filter_preserve_zero_witness:
  "demean mean64 (replicate 10 0) = replicate 10 0
   \<and> filtfilt zero_zi [1, 2, 1] [1, 0, 0] (replicate 10 0) = Inr (replicate 10 0)
   \<and> filter_channel mean64 zero_zi ([1, 2, 1], [1, 0, 0]) ([1], [1]) False (replicate 10 0)
       = Inr (replicate 10 0)"
  using demean_residual_and_filter_preserve_zero [where np_mean = mean64 and n = 10 and c = 0
      and a = "[1, 0, 0]" and b = "[1, 2, 1]" and lfilter_zi = zero_zi
      and notch = "([1, 2, 1], [1, 0, 0])" and bp = "([1], [1])" and apply_bandpass = False]
  by (simp add: mean64_zero float64_zero)


section \<open>Properties of processing/normalize.py\<close>

lemma collect_nth:
  "collect rs = Inr vs \<Longrightarrow> length vs = length rs \<and> (\<forall>i<length rs. rs ! i = Inr (vs ! i))"
proof (induction rs arbitrary: vs)
  case Nil
  then show ?case by simp
next
  case (Cons r rs)
  show ?case
  proof (cases r)
    case (Inl e)
    then show ?thesis using Cons.prems by simp
  next
    case (Inr v)
    then obtain ws where ws: "collect rs = Inr ws" and vs: "vs = v # ws"
      using Cons.prems by (auto split: sum.splits)
    from Cons.IH [OF ws] have "length ws = length rs" "\<forall>i<length rs. rs ! i = Inr (ws ! i)"
      by simp_all
    then show ?thesis using Inr vs by (auto simp: nth_Cons split: nat.split)
  qed
qed


lemma cell_div_zscore:
  "s \<noteq> Some 0 \<Longrightarrow> cell_div (cell_sub x m) s = Inr (zscore_spec x m s)"
  by (cases x; cases m; cases s) (simp_all add: zscore_spec_def)

lemma collect_zscore:
  assumes "s \<noteq> Some 0"
  shows "collect (map (\<lambda>x. cell_div (cell_sub x m) s) xs) = Inr (map (\<lambda>x. zscore_spec x m s) xs)"
  by (rule collect_all_Inr) (simp add: cell_div_zscore [OF assms])

lemma baseline_guard: "baseline sm sd rest_df keep c = Inr (m, s) \<Longrightarrow> s \<noteq> Some 0"
  by (auto simp: baseline_def Let_def split: option.splits column.splits if_splits)


lemma baseline_Inr:
  assumes "baseline sm sd rest_df keep c = Inr (m, s)"
  shows "\<exists>r. map_of rest_df c = Some (Numeric r) \<and> m = sm (select_rows keep r) \<and>
             s = (if sd (select_rows keep r) = Some 0 then None else sd (select_rows keep r))"
  using assms by (auto simp: baseline_def Let_def split: option.splits column.splits)

lemma normalize_column_result:
  assumes "normalize_column sm sd rest_df keep chans (c, col) = Inr r"
  shows "(c \<notin> set chans \<longrightarrow> r = (c, col)) \<and>
         (c \<in> set chans \<longrightarrow>
            (\<exists>xs m s. col = Numeric xs \<and> baseline sm sd rest_df keep c = Inr (m, s) \<and>
                      s \<noteq> Some 0 \<and> r = (c, Numeric (map (\<lambda>x. zscore_spec x m s) xs))))"
proof (cases "c \<in> set chans")
  case False
  then show ?thesis using assms by (simp add: normalize_column_def)
next
  case True
  from assms True obtain m s where b: "baseline sm sd rest_df keep c = Inr (m, s)"
    by (auto simp: normalize_column_def split: sum.splits)
  have g: "s \<noteq> Some 0" using b by (rule baseline_guard)
  from assms True b obtain xs where col: "col = Numeric xs"
    by (auto simp: normalize_column_def split: column.splits)
  have "r = (c, Numeric (map (\<lambda>x. zscore_spec x m s) xs))"
    using assms True b col by (simp add: normalize_column_def collect_zscore [OF g])
  then show ?thesis using True b g col by blast
qed


lemma normalize_success:
  assumes "normalize sm sd rest_df exp_df ts_col sb eb = Inr out"
  shows "\<exists>ts. map_of rest_df ts_col = Some (Numeric ts) \<and>
           collect (map (normalize_column sm sd rest_df (cull_mask ts sb eb)
                      (filter (\<lambda>c. c \<notin> set TIMESTAMP_COLUMNS) (map fst rest_df))) exp_df) = Inr out"
  using assms
  by (auto simp: normalize_def Let_def split: if_splits option.splits column.splits)

lemma cell_div_no_zero_division: "s \<noteq> Some 0 \<Longrightarrow> cell_div x s \<noteq> Inl ZeroDivisionError"
  by (cases x; cases s) simp_all



lemma normalize_entries:
  assumes "normalize sm sd rest_df exp_df ts_col sb eb = Inr out"
  shows "\<exists>ts. map_of rest_df ts_col = Some (Numeric ts) \<and> length out = length exp_df \<and>
     (\<forall>i<length exp_df.
        (fst (exp_df ! i) \<notin> set (filter (\<lambda>c. c \<notin> set TIMESTAMP_COLUMNS) (map fst rest_df))
           \<longrightarrow> out ! i = exp_df ! i) \<and>
        (fst (exp_df ! i) \<in> set (filter (\<lambda>c. c \<notin> set TIMESTAMP_COLUMNS) (map fst rest_df))
           \<longrightarrow> (\<exists>xs r. exp_df ! i = (fst (exp_df ! i), Numeric xs) \<and>
                  map_of rest_df (fst (exp_df ! i)) = Some (Numeric r) \<and>
                  out ! i = (fst (exp_df ! i),
                     Numeric (map (\<lambda>x. zscore_spec x
                        (sm (select_rows (cull_mask ts sb eb) r))
                        (if sd (select_rows (cull_mask ts sb eb) r) = Some 0 then None
                         else sd (select_rows (cull_mask ts sb eb) r))) xs)))))"
proof -
  let ?ch = "filter (\<lambda>c. c \<notin> set TIMESTAMP_COLUMNS) (map fst rest_df)"
  from normalize_success [OF assms] obtain ts where
    ts: "map_of rest_df ts_col = Some (Numeric ts)" and
    col: "collect (map (normalize_column sm sd rest_df (cull_mask ts sb eb) ?ch) exp_df) = Inr out"
    by blast
  let ?keep = "cull_mask ts sb eb"
  from collect_nth [OF col] have len: "length out = length exp_df"
    and nth: "\<forall>i<length exp_df. normalize_column sm sd rest_df ?keep ?ch (exp_df ! i) = Inr (out ! i)"
    by simp_all
  have "(fst (exp_df ! i) \<notin> set ?ch \<longrightarrow> out ! i = exp_df ! i) \<and>
        (fst (exp_df ! i) \<in> set ?ch
           \<longrightarrow> (\<exists>xs r. exp_df ! i = (fst (exp_df ! i), Numeric xs) \<and>
                  map_of rest_df (fst (exp_df ! i)) = Some (Numeric r) \<and>
                  out ! i = (fst (exp_df ! i),
                     Numeric (map (\<lambda>x. zscore_spec x
                        (sm (select_rows ?keep r))
                        (if sd (select_rows ?keep r) = Some 0 then None
                         else sd (select_rows ?keep r))) xs))))"
    if i: "i < length exp_df" for i
  proof -
    obtain c cl where e: "exp_df ! i = (c, cl)" by (cases "exp_df ! i") auto
    from nth i have "normalize_column sm sd rest_df ?keep ?ch (exp_df ! i) = Inr (out ! i)" by blast
    then have r: "normalize_column sm sd rest_df ?keep ?ch (c, cl) = Inr (out ! i)"
      unfolding e .
    from normalize_column_result [OF r]
    have a: "c \<notin> set ?ch \<longrightarrow> out ! i = (c, cl)"
      and b: "c \<in> set ?ch \<longrightarrow>
            (\<exists>xs m s. cl = Numeric xs \<and> baseline sm sd rest_df ?keep c = Inr (m, s) \<and> s \<noteq> Some 0 \<and>
                      out ! i = (c, Numeric (map (\<lambda>x. zscore_spec x m s) xs)))"
      by blast+
    have b': "\<exists>xs r. cl = Numeric xs \<and> map_of rest_df c = Some (Numeric r) \<and>
                  out ! i = (c, Numeric (map (\<lambda>x. zscore_spec x
                        (sm (select_rows ?keep r))
                        (if sd (select_rows ?keep r) = Some 0 then None
                         else sd (select_rows ?keep r))) xs))" if "c \<in> set ?ch"
    proof -
      from b that obtain xs m s where xs: "cl = Numeric xs"
        and bs: "baseline sm sd rest_df ?keep c = Inr (m, s)"
        and o: "out ! i = (c, Numeric (map (\<lambda>x. zscore_spec x m s) xs))" by blast
      from baseline_Inr [OF bs] obtain r where "map_of rest_df c = Some (Numeric r)"
        "m = sm (select_rows ?keep r)"
        "s = (if sd (select_rows ?keep r) = Some 0 then None
              else sd (select_rows ?keep r))" by blast
      then show ?thesis using xs o by blast
    qed
    show ?thesis unfolding e using a b' by simp
  qed
  then show ?thesis using ts len by blast
qed

lemma float64_one: "float64 1 = 1"
  using float64_at [of "-52" 1] by (simp add: round_even_def power_int_minus)

lemma float64_two: "float64 2 = 2"
  using float64_at [of "-51" 2] by (simp add: round_even_def power_int_minus)

lemma float64_minus_one: "float64 (- 1) = - 1"
  using float64_at [of "-52" "- 1"] by (simp add: round_even_def power_int_minus)

lemma cull_mask_example: "cull_mask [Some 0, Some 1, Some 2, Some 3] 1 1 = [False, True, True, False]"
  by (simp add: cull_mask_def valid_values_def Let_def float64_one float64_two)

lemma normalize_example:
  "normalize exact_mean exact_std rest_example exp_example ''lsl_unix_ts'' 1 1
     = Inr [(''TimeStamp'', Text [''a'', ''b'']),
            (''lsl_unix_ts'', Numeric [Some 10, Some 11]),
            (''AF7'', Numeric [None, None]),
            (''AF8'', Numeric [Some 2, Some (- 1)])]"
  by (simp add: normalize_def rest_example_def exp_example_def TIMESTAMP_COLUMNS_def Let_def
      cull_mask_example normalize_column_def baseline_def select_rows_def exact_mean_def
      exact_std_def valid_values_def float64_one float64_two float64_minus_one)

text \<open>
  C8.  When \<open>normalize\<close> returns a frame, the frame has the columns of the target, under
  the same names and in the same order; a column that is not a channel column of the
  reference (a column of the reference outside \<open>TIMESTAMP_COLUMNS\<close>) is the column of the
  target, unchanged; and a channel column holds, for each sample, the value
  \<open>(raw - baseline_mean) / baseline_std\<close> of the specification, where the mean and the
  deviation are those of the channel over the culled reference, the deviation missing when
  it is zero.
\<close>

theorem normalize_frame_effect:
  assumes "normalize series_mean series_std rest_df exp_df ts_col start_buffer end_buffer = Inr out"
  shows "\<exists>ts. map_of rest_df ts_col = Some (Numeric ts) \<and> length out = length exp_df \<and>
     map fst out = map fst exp_df \<and>
     (\<forall>i<length exp_df.
        (fst (exp_df ! i) \<notin> set (filter (\<lambda>c. c \<notin> set TIMESTAMP_COLUMNS) (map fst rest_df))
           \<longrightarrow> out ! i = exp_df ! i) \<and>
        (fst (exp_df ! i) \<in> set (filter (\<lambda>c. c \<notin> set TIMESTAMP_COLUMNS) (map fst rest_df))
           \<longrightarrow> (\<exists>xs r. exp_df ! i = (fst (exp_df ! i), Numeric xs) \<and>
                  map_of rest_df (fst (exp_df ! i)) = Some (Numeric r) \<and>
                  out ! i = (fst (exp_df ! i),
                     Numeric (map (\<lambda>x. zscore_spec x
                        (series_mean (select_rows (cull_mask ts start_buffer end_buffer) r))
                        (if series_std (select_rows (cull_mask ts start_buffer end_buffer) r) = Some 0
                         then None
                         else series_std (select_rows (cull_mask ts start_buffer end_buffer) r)))
                       xs)))))"
proof -
  from normalize_entries [OF assms] obtain ts where
    ts: "map_of rest_df ts_col = Some (Numeric ts)" and len: "length out = length exp_df" and
    ent: "\<forall>i<length exp_df.
        (fst (exp_df ! i) \<notin> set (filter (\<lambda>c. c \<notin> set TIMESTAMP_COLUMNS) (map fst rest_df))
           \<longrightarrow> out ! i = exp_df ! i) \<and>
        (fst (exp_df ! i) \<in> set (filter (\<lambda>c. c \<notin> set TIMESTAMP_COLUMNS) (map fst rest_df))
           \<longrightarrow> (\<exists>xs r. exp_df ! i = (fst (exp_df ! i), Numeric xs) \<and>
                  map_of rest_df (fst (exp_df ! i)) = Some (Numeric r) \<and>
                  out ! i = (fst (exp_df ! i),
                     Numeric (map (\<lambda>x. zscore_spec x
                        (series_mean (select_rows (cull_mask ts start_buffer end_buffer) r))
                        (if series_std (select_rows (cull_mask ts start_buffer end_buffer) r) = Some 0
                         then None
                         else series_std (select_rows (cull_mask ts start_buffer end_buffer) r)))
                       xs))))"
    by blast
  have "fst (out ! i) = fst (exp_df ! i)" if "i < length exp_df" for i
    using ent that
    by (cases "fst (exp_df ! i) \<in> set (filter (\<lambda>c. c \<notin> set TIMESTAMP_COLUMNS) (map fst rest_df))")
       auto
  then have "map fst out = map fst exp_df"
    using len by (intro nth_equalityI) simp_all
  then show ?thesis using ts len ent by blast
qed

theorem normalize_frame_effect_witness:
  "normalize exact_mean exact_std rest_example exp_example ''lsl_unix_ts'' 1 1
     = Inr [(''TimeStamp'', Text [''a'', ''b'']),
            (''lsl_unix_ts'', Numeric [Some 10, Some 11]),
            (''AF7'', Numeric [None, None]),
            (''AF8'', Numeric [Some 2, Some (- 1)])]
   \<and> map fst [(''TimeStamp'', Text [''a'', ''b'']),
               (''lsl_unix_ts'', Numeric [Some 10, Some (11::real)]),
               (''AF7'', Numeric [None, None]),
               (''AF8'', Numeric [Some 2, Some (- 1)])] = map fst exp_example"
  using normalize_frame_effect [OF normalize_example] normalize_example
  by (simp add: exp_example_def)




section \<open>Properties of interpolate_nans\<close>

lemma valid_points_append:
  "valid_points m (xs @ ys) = valid_points m xs @ valid_points (m + length xs) ys"
proof (induction xs arbitrary: m)
  case Nil
  show ?case by simp
next
  case (Cons x xs)
  show ?case by (cases x) (simp_all add: Cons.IH)
qed

lemma valid_points_nans: "valid_points m (replicate k None) = []"
  by (induction k arbitrary: m) simp_all

lemma valid_points_bounds:
  "(i, v) \<in> set (valid_points m xs) \<Longrightarrow> m \<le> i \<and> i < m + length xs"
proof (induction xs arbitrary: m)
  case Nil
  then show ?case by simp
next
  case (Cons x xs)
  show ?case
  proof (cases x)
    case None
    then show ?thesis using Cons.IH [of "Suc m"] Cons.prems by auto
  next
    case (Some w)
    then show ?thesis using Cons.IH [of "Suc m"] Cons.prems by auto
  qed
qed

lemma valid_points_xp:
  "map (\<lambda>iv. real (fst iv)) (filter (\<lambda>iv. snd iv \<noteq> None) (zip [m ..< m + length x] x))
     = map (\<lambda>p. real (fst p)) (valid_points m x)"
proof (induction x arbitrary: m)
  case Nil
  show ?case by simp
next
  case (Cons v x)
  have "m < m + length (v # x)" by simp
  then have "[m ..< m + length (v # x)] = m # [Suc m ..< m + length (v # x)]"
    by (rule upt_conv_Cons)
  moreover have "m + length (v # x) = Suc m + length x" by simp
  ultimately have u: "[m ..< m + length (v # x)] = m # [Suc m ..< Suc m + length x]"
    by (simp only:)
  show ?case unfolding u using Cons.IH [of "Suc m"] by (cases v) simp_all
qed

lemma valid_points_fp: "valid_values x = map snd (valid_points m x)"
proof (induction x arbitrary: m)
  case Nil
  show ?case by (simp add: valid_values_def)
next
  case (Cons v x)
  show ?case using Cons.IH [of "Suc m"] by (cases v) (simp_all add: valid_values_def)
qed

lemma interp_search_skip:
  assumes "length xs = length ys" and "\<forall>x\<in>set xs. x \<le> t" and "p \<le> t"
  shows "interp_search t (xs @ p # xr) (ys @ a # yr) = interp_search t (p # xr) (a # yr)"
  using assms
proof (induction xs ys rule: list_induct2)
  case Nil
  show ?case by simp
next
  case (Cons x xs y ys)
  have rest: "interp_search t (xs @ p # xr) (ys @ a # yr) = interp_search t (p # xr) (a # yr)"
    using Cons by simp
  show ?case
  proof (cases xs)
    case Nil
    then have "ys = []" using Cons.hyps by simp
    then show ?thesis using Nil Cons.prems by simp
  next
    case (Cons x1 xs')
    then obtain y1 ys' where ys: "ys = y1 # ys'" using Cons.hyps by (cases ys) auto
    have "x1 \<le> t" using Cons.prems(1) \<open>xs = x1 # xs'\<close> by simp
    then show ?thesis using rest \<open>xs = x1 # xs'\<close> ys by simp
  qed
qed

lemma interpolate_nans_result:
  assumes "valid_points 0 x \<noteq> []"
  shows "interpolate_nans x =
     Inr (map (\<lambda>iv. if snd iv = None
                     then Some (np_interp (real (fst iv))
                                  (map (\<lambda>p. real (fst p)) (valid_points 0 x))
                                  (map snd (valid_points 0 x)))
                     else snd iv) (zip [0 ..< length x] x))"
proof (cases "\<exists>b \<in> set (map (\<lambda>v. v = None) x). b")
  case False
  then have nn: "None \<notin> set x" by auto
  have "map (\<lambda>iv. if snd iv = None
                     then Some (np_interp (real (fst iv))
                                  (map (\<lambda>p. real (fst p)) (valid_points 0 x))
                                  (map snd (valid_points 0 x)))
                     else snd iv) (zip [0 ..< length x] x)
        = map snd (zip [0 ..< length x] x)"
  proof (intro map_cong refl)
    fix iv assume "iv \<in> set (zip [0 ..< length x] x)"
    then have "(fst iv, snd iv) \<in> set (zip [0 ..< length x] x)" by simp
    then have "snd iv \<in> set x" by (rule set_zip_rightD)
    then have "snd iv \<noteq> None" using nn by metis
    then show "(if snd iv = None
                then Some (np_interp (real (fst iv))
                             (map (\<lambda>p. real (fst p)) (valid_points 0 x))
                             (map snd (valid_points 0 x)))
                else snd iv) = snd iv" by (simp only: if_False)
  qed
  also have "\<dots> = x" by simp
  finally show ?thesis using False by (simp add: interpolate_nans_def)
next
  case True
  have xp: "map (\<lambda>iv. real (fst iv)) (filter (\<lambda>iv. snd iv \<noteq> None) (zip [0 ..< length x] x))
     = map (\<lambda>p. real (fst p)) (valid_points 0 x)"
    using valid_points_xp [of 0 x] by simp
  have fp: "valid_values x = map snd (valid_points 0 x)" by (rule valid_points_fp)
  show ?thesis
    using True assms unfolding interpolate_nans_def Let_def xp fp by simp
qed

lemma interpolate_nans_nth:
  assumes "valid_points 0 x \<noteq> []" and "interpolate_nans x = Inr y" and "i < length x"
  shows "y ! i = (if x ! i = None
                  then Some (np_interp (real i) (map (\<lambda>p. real (fst p)) (valid_points 0 x))
                               (map snd (valid_points 0 x)))
                  else x ! i)"
  using assms(2,3) unfolding interpolate_nans_result [OF assms(1)] by auto

lemma np_interp_left:
  assumes "xp = real p # xr" and "fp = a # yr" and "\<forall>r\<in>set xr. real p < r" and "t < real p"
  shows "np_interp t xp fp = a"
proof -
  have "last xp \<in> set xp" using assms(1) by (intro last_in_set) simp
  then have "real p \<le> last xp" using assms(1,3) by auto
  then show ?thesis using assms by (simp add: np_interp_def)
qed

lemma np_interp_right:
  assumes "xp = xs @ [real q]" and "fp = ys @ [b]" and "real q < t"
  shows "np_interp t xp fp = b"
  using assms by (simp add: np_interp_def)

lemma np_interp_between:
  assumes xp: "xp = xs @ real p # real q # xr" and fp: "fp = ys @ a # b # yr"
    and len: "length xs = length ys"
    and lo: "\<forall>r\<in>set xs. r < real p" and hi: "\<forall>r\<in>set xr. real q < r"
    and t: "real p < t" "t < real q"
  shows "np_interp t xp fp = lerp64 (real p) a (real q) b t"
proof -
  have "last xp = last (real q # xr)" unfolding xp by simp
  moreover have "last (real q # xr) \<in> set (real q # xr)" by (intro last_in_set) simp
  ultimately have "real q \<le> last xp" using hi by auto
  then have a1: "\<not> t > last xp" using t by simp
  have "hd xp \<in> set (xs @ [real p])" unfolding xp by (cases xs) simp_all
  then have "hd xp \<le> real p" using lo by auto
  then have a2: "\<not> t < hd xp" using t by simp
  have "interp_search t (xs @ real p # real q # xr) (ys @ a # b # yr)
          = interp_search t (real p # real q # xr) (a # b # yr)"
    using len lo t by (intro interp_search_skip) auto
  also have "\<dots> = lerp64 (real p) a (real q) b t"
    using t by (simp add: lerp64_def)
  finally show ?thesis using a1 a2 unfolding np_interp_def xp fp by simp
qed

lemma valid_points_fst_less:
  "\<forall>r\<in>set (map (\<lambda>p. real (fst p)) (valid_points 0 pre)). r < real (length pre)"
  using valid_points_bounds [of _ _ 0 pre] by fastforce

lemma valid_points_fst_greater:
  "\<forall>r\<in>set (map (\<lambda>p. real (fst p)) (valid_points (Suc q) post)). real q < r"
  using valid_points_bounds [of _ _ "Suc q" post] by fastforce

lemma interpolate_nans_leading:
  assumes x: "x = replicate k None @ Some a # post" and j: "j < k"
  shows "\<exists>y. interpolate_nans x = Inr y \<and> length y = length x \<and> y ! j = Some a"
proof -
  have vp: "valid_points 0 x = (k, a) # valid_points (Suc k) post"
    unfolding x by (simp add: valid_points_append valid_points_nans)
  then have ne: "valid_points 0 x \<noteq> []" by simp
  obtain y where y: "interpolate_nans x = Inr y" and len: "length y = length x"
    using interpolate_nans_result [OF ne] by simp
  have jx: "j < length x" using j x by simp
  have nan: "x ! j = None" using j x by (simp add: nth_append)
  have "np_interp (real j) (map (\<lambda>p. real (fst p)) (valid_points 0 x))
          (map snd (valid_points 0 x)) = a"
  proof (rule np_interp_left)
    show "map (\<lambda>p. real (fst p)) (valid_points 0 x)
            = real k # map (\<lambda>p. real (fst p)) (valid_points (Suc k) post)"
      unfolding vp by simp
    show "map snd (valid_points 0 x) = a # map snd (valid_points (Suc k) post)"
      unfolding vp by simp
    show "\<forall>r\<in>set (map (\<lambda>p. real (fst p)) (valid_points (Suc k) post)). real k < r"
      by (rule valid_points_fst_greater)
    show "real j < real k" using j by simp
  qed
  then have "y ! j = Some a"
    using interpolate_nans_nth [OF ne y jx] nan by simp
  then show ?thesis using y len by blast
qed

lemma interpolate_nans_trailing:
  assumes x: "x = pre @ Some b # replicate k None" and j: "j < k"
  shows "\<exists>y. interpolate_nans x = Inr y \<and> length y = length x \<and>
             y ! (length pre + 1 + j) = Some b"
proof -
  have vp: "valid_points 0 x = valid_points 0 pre @ [(length pre, b)]"
    unfolding x by (simp add: valid_points_append valid_points_nans)
  then have ne: "valid_points 0 x \<noteq> []" by simp
  obtain y where y: "interpolate_nans x = Inr y" and len: "length y = length x"
    using interpolate_nans_result [OF ne] by simp
  have jx: "length pre + 1 + j < length x" using j x by simp
  have nan: "x ! (length pre + 1 + j) = None" using j x by (simp add: nth_append)
  have "np_interp (real (length pre + 1 + j)) (map (\<lambda>p. real (fst p)) (valid_points 0 x))
          (map snd (valid_points 0 x)) = b"
  proof (rule np_interp_right)
    show "map (\<lambda>p. real (fst p)) (valid_points 0 x)
            = map (\<lambda>p. real (fst p)) (valid_points 0 pre) @ [real (length pre)]"
      unfolding vp by simp
    show "map snd (valid_points 0 x) = map snd (valid_points 0 pre) @ [b]"
      unfolding vp by simp
    show "real (length pre) < real (length pre + 1 + j)" by simp
  qed
  then have "y ! (length pre + 1 + j) = Some b"
    using interpolate_nans_nth [OF ne y jx] nan by simp
  then show ?thesis using y len by blast
qed

lemma interpolate_nans_interior:
  assumes x: "x = pre @ Some a # replicate k None @ Some b # post" and j: "j < k"
  shows "\<exists>y. interpolate_nans x = Inr y \<and> length y = length x \<and>
             y ! (length pre + 1 + j)
               = Some (lerp64 (real (length pre)) a (real (length pre + k + 1)) b
                         (real (length pre + 1 + j)))"
proof -
  let ?p = "length pre"
  let ?q = "length pre + k + 1"
  have vp: "valid_points 0 x
      = valid_points 0 pre @ (?p, a) # (?q, b) # valid_points (Suc ?q) post"
    unfolding x by (simp add: valid_points_append valid_points_nans add.commute add.left_commute)
  then have ne: "valid_points 0 x \<noteq> []" by simp
  obtain y where y: "interpolate_nans x = Inr y" and len: "length y = length x"
    using interpolate_nans_result [OF ne] by simp
  have jx: "?p + 1 + j < length x" using j x by simp
  have nan: "x ! (?p + 1 + j) = None" using j x by (simp add: nth_append)
  have "np_interp (real (?p + 1 + j)) (map (\<lambda>p. real (fst p)) (valid_points 0 x))
          (map snd (valid_points 0 x))
        = lerp64 (real ?p) a (real ?q) b (real (?p + 1 + j))"
  proof (rule np_interp_between)
    show "map (\<lambda>p. real (fst p)) (valid_points 0 x)
            = map (\<lambda>p. real (fst p)) (valid_points 0 pre) @ real ?p # real ?q #
              map (\<lambda>p. real (fst p)) (valid_points (Suc ?q) post)"
      unfolding vp by simp
    show "map snd (valid_points 0 x)
            = map snd (valid_points 0 pre) @ a # b # map snd (valid_points (Suc ?q) post)"
      unfolding vp by simp
    show "length (map (\<lambda>p. real (fst p)) (valid_points 0 pre))
            = length (map snd (valid_points 0 pre))" by simp
    show "\<forall>r\<in>set (map (\<lambda>p. real (fst p)) (valid_points 0 pre)). r < real ?p"
      by (rule valid_points_fst_less)
    show "\<forall>r\<in>set (map (\<lambda>p. real (fst p)) (valid_points (Suc ?q) post)). real ?q < r"
      by (rule valid_points_fst_greater)
    show "real ?p < real (?p + 1 + j)" by simp
    show "real (?p + 1 + j) < real ?q" using j by simp
  qed
  then have "y ! (?p + 1 + j)
      = Some (lerp64 (real ?p) a (real ?q) b (real (?p + 1 + j)))"
    using interpolate_nans_nth [OF ne y jx] nan by simp
  then show ?thesis using y len by blast
qed

lemma valid_points_nonempty: "i < length x \<Longrightarrow> x ! i = Some v \<Longrightarrow> valid_points m x \<noteq> []"
proof (induction x arbitrary: i m)
  case Nil
  then show ?case by simp
next
  case (Cons w x)
  show ?case
  proof (cases w)
    case None
    then obtain i' where "i = Suc i'" using Cons.prems by (cases i) simp_all
    then show ?thesis using Cons None by simp
  next
    case (Some u)
    then show ?thesis by simp
  qed
qed

lemma interpolate_nans_valid:
  assumes i: "i < length x" and v: "x ! i = Some v"
  shows "\<exists>y. interpolate_nans x = Inr y \<and> length y = length x \<and> y ! i = Some v"
proof -
  have ne: "valid_points 0 x \<noteq> []" using i v by (rule valid_points_nonempty)
  obtain y where y: "interpolate_nans x = Inr y" and len: "length y = length x"
    using interpolate_nans_result [OF ne] by simp
  have "y ! i = Some v" using interpolate_nans_nth [OF ne y i] v by simp
  then show ?thesis using y len by blast
qed

lemma float64_three: "float64 3 = 3"
  using float64_at [of "-51" 3] by (simp add: round_even_def power_int_minus)

lemma interpolate_nans_example:
  "interpolate_nans [None, Some 1, None, None, Some 4, None]
     = Inr [Some 1, Some 1, Some 2, Some 3, Some 4, Some 4]"
  by (simp add: interpolate_nans_def valid_values_def np_interp_def Let_def upt_conv_Cons
      float64_one float64_two float64_three)

text \<open>
  C10.  On a channel with a sample that is present, \<open>interpolate_nans\<close> returns a channel of
  the same length in which every sample that was present is unchanged; the missing samples
  before the first sample that is present take its value, the missing samples after the
  last one take its value, and a run of missing samples between two samples that are
  present, \<open>a\<close> at index \<open>p\<close> and \<open>b\<close> at index \<open>q\<close>, takes at index \<open>i\<close> the value on the line
  through the two, \<open>(b - a) / (q - p) * (i - p) + a\<close>, as \<open>np.interp\<close> rounds it.
\<close>

theorem interpolate_nans_edges_constant_interior_linear:
  "(x = replicate k1 None @ Some a1 # post1 \<and> j1 < k1 \<longrightarrow>
      (\<exists>y. interpolate_nans x = Inr y \<and> length y = length x \<and> y ! j1 = Some a1))
   \<and> (x = pre2 @ Some b2 # replicate k2 None \<and> j2 < k2 \<longrightarrow>
      (\<exists>y. interpolate_nans x = Inr y \<and> length y = length x \<and>
           y ! (length pre2 + 1 + j2) = Some b2))
   \<and> (x = pre @ Some a # replicate k None @ Some b # post \<and> j < k \<longrightarrow>
      (\<exists>y. interpolate_nans x = Inr y \<and> length y = length x \<and>
           y ! (length pre + 1 + j)
             = Some (lerp64 (real (length pre)) a (real (length pre + k + 1)) b
                       (real (length pre + 1 + j)))))
   \<and> (i < length x \<and> x ! i = Some v \<longrightarrow>
      (\<exists>y. interpolate_nans x = Inr y \<and> length y = length x \<and> y ! i = Some v))"
proof (intro conjI impI)
  show "\<exists>y. interpolate_nans x = Inr y \<and> length y = length x \<and> y ! j1 = Some a1"
    if "x = replicate k1 None @ Some a1 # post1 \<and> j1 < k1"
    using that interpolate_nans_leading [of x k1 a1 post1 j1] by blast
  show "\<exists>y. interpolate_nans x = Inr y \<and> length y = length x \<and>
           y ! (length pre2 + 1 + j2) = Some b2"
    if "x = pre2 @ Some b2 # replicate k2 None \<and> j2 < k2"
    using that interpolate_nans_trailing [of x pre2 b2 k2 j2] by blast
  show "\<exists>y. interpolate_nans x = Inr y \<and> length y = length x \<and>
           y ! (length pre + 1 + j)
             = Some (lerp64 (real (length pre)) a (real (length pre + k + 1)) b
                       (real (length pre + 1 + j)))"
    if "x = pre @ Some a # replicate k None @ Some b # post \<and> j < k"
    using that interpolate_nans_interior [of x pre a k b post j] by blast
  show "\<exists>y. interpolate_nans x = Inr y \<and> length y = length x \<and> y ! i = Some v"
    if "i < length x \<and> x ! i = Some v"
    using that interpolate_nans_valid [of i x v] by blast
qed

theorem interpolate_nans_edges_constant_interior_linear_witness:
  "[None, Some 1, None, None, Some 4, None] = replicate 1 None @ Some 1 # [None, None, Some 4, None]
   \<and> [None, Some 1, None, None, Some 4, None] = [None, Some 1, None, None] @ Some 4 # replicate 1 None
   \<and> [None, Some 1, None, None, Some 4, None] = [None] @ Some 1 # replicate 2 None @ Some 4 # [None]
   \<and> lerp64 1 1 4 4 3 = 3
   \<and> interpolate_nans [None, Some 1, None, None, Some 4, None]
       = Inr [Some 1, Some 1, Some 2, Some 3, Some 4, Some 4]"
  using interpolate_nans_edges_constant_interior_linear
      [where x = "[None, Some 1, None, None, Some 4, None]"
        and ?k1.0 = 1 and ?a1.0 = 1 and ?post1.0 = "[None, None, Some 4, None]" and ?j1.0 = 0
        and ?pre2.0 = "[None, Some 1, None, None]" and ?b2.0 = 4 and ?k2.0 = 1 and ?j2.0 = 0
        and pre = "[None]" and a = 1 and k = 2 and b = 4 and post = "[None]" and j = 1
        and i = 1 and v = 1]
    interpolate_nans_example
  by (simp add: lerp64_def float64_one float64_two float64_three numeral_2_eq_2)

end
